theory Spec2Isabelle
  imports Complex_Main "HOL-Library.AList" "HOL-Library.Sublist"
begin

section \<open>Python values, dictionaries and exceptions\<close>

text \<open>
  The content records and their metadata are Python dictionaries with string keys and
  values of any JSON-like type. Floats are left out: no scraper stores one in a field
  the validator reads.
\<close>

datatype pyval =
    VNone
  | VBool bool
  | VInt int
  | VStr string
  | VList "pyval list"
  | VDict "(string \<times> pyval) list"

type_synonym pydict = "(string \<times> pyval) list"

text \<open>
  The exceptions the modelled code raises. All of them are subclasses of Python's
  \<open>Exception\<close>. \<open>HTTPError\<close> (raised by \<open>raise_for_status\<close>) and
  \<open>TransportError\<close> (connection failures, timeouts and the adapter's exhausted
  retries) are the \<open>requests.RequestException\<close> family; \<open>RetryError\<close> is
  tenacity's.
\<close>

datatype exc =
    TypeError
  | KeyError
  | AttributeError
  | ValueError
  | IndexError
  | HTTPError nat
  | TransportError
  | ConnectionError
  | RequestsRetryError
  | RetryError

text \<open>Python truthiness: \<open>bool(x)\<close>.\<close>

fun truthy :: "pyval \<Rightarrow> bool" where
  "truthy VNone = False"
| "truthy (VBool b) = b"
| "truthy (VInt n) = (n \<noteq> 0)"
| "truthy (VStr s) = (s \<noteq> [])"
| "truthy (VList xs) = (xs \<noteq> [])"
| "truthy (VDict d) = (d \<noteq> [])"

text \<open>\<open>d.get(k, default)\<close>, \<open>k in d\<close>, \<open>d[k] = v\<close> and \<open>len(d)\<close> on a dictionary. A
  dictionary keeps its insertion order; assigning to a key that is present keeps the
  key's place.\<close>

definition dict_get :: "pydict \<Rightarrow> string \<Rightarrow> pyval \<Rightarrow> pyval" where
  "dict_get d k dflt = (case map_of d k of None \<Rightarrow> dflt | Some v \<Rightarrow> v)"

definition dict_has :: "pydict \<Rightarrow> string \<Rightarrow> bool" where
  "dict_has d k = (map_of d k \<noteq> None)"

definition dict_set :: "pydict \<Rightarrow> string \<Rightarrow> pyval \<Rightarrow> pydict" where
  "dict_set d k v = AList.update k v d"

definition dict_len :: "pydict \<Rightarrow> nat" where
  "dict_len d = length (remdups (map fst d))"

text \<open>\<open>table.get(key, default)\<close> on a dictionary with string keys, for a key of any
  type: a list or a dictionary is unhashable, any other non-string is simply absent.\<close>

fun table_get :: "(string \<times> 'a) list \<Rightarrow> pyval \<Rightarrow> 'a \<Rightarrow> exc + 'a" where
  "table_get t (VStr k) dflt = Inr (case map_of t k of None \<Rightarrow> dflt | Some x \<Rightarrow> x)"
| "table_get t (VList xs) dflt = Inl TypeError"
| "table_get t (VDict d) dflt = Inl TypeError"
| "table_get t v dflt = Inr dflt"

text \<open>\<open>metadata.get\<close>: attribute access on a value that must be a dictionary.\<close>

fun as_dict :: "pyval \<Rightarrow> exc + pydict" where
  "as_dict (VDict d) = Inr d"
| "as_dict v = Inl AttributeError"

text \<open>\<open>x > k\<close> and \<open>x >= k\<close> for an integer \<open>k\<close>: integers and booleans compare,
  anything else raises \<open>TypeError\<close>.\<close>

fun py_gt :: "pyval \<Rightarrow> int \<Rightarrow> exc + bool" where
  "py_gt (VInt n) k = Inr (n > k)"
| "py_gt (VBool b) k = Inr ((if b then 1 else 0) > k)"
| "py_gt v k = Inl TypeError"


text \<open>\<open>cfg.get('name') == x\<close> where the configured name is a string or absent
  (\<open>None\<close>) and \<open>x\<close> is any value.\<close>

fun name_eq :: "string option \<Rightarrow> pyval \<Rightarrow> bool" where
  "name_eq None x = (x = VNone)"
| "name_eq (Some s) x = (x = VStr s)"

section \<open>Strings and URLs\<close>

text \<open>\<open>s.endswith(suf)\<close>.\<close>

definition endswith :: "string \<Rightarrow> string \<Rightarrow> bool" where
  "endswith s suf = (length suf \<le> length s \<and> drop (length s - length suf) s = suf)"

text \<open>\<open>s.replace('www.', '')\<close>: every occurrence is removed, scanning from the left.\<close>

fun replace_www :: "string \<Rightarrow> string" where
  "replace_www (a # b # c # d # rest) =
     (if [a, b, c, d] = ''www.'' then replace_www rest
      else a # replace_www (b # c # d # rest))"
| "replace_www s = s"

text \<open>
  \<open>urllib.parse.urlparse\<close> is a library function. The model takes it as a parameter:
  a function from the URL to the pair (scheme, netloc) of the parse result, or to the
  exception the call raises. Every general theorem below holds for any such function.
\<close>

type_synonym url_parser = "string \<Rightarrow> exc + string \<times> string"

text \<open>\<open>urlparse(url).netloc.replace('www.', '')\<close>.\<close>

definition netloc_of :: "url_parser \<Rightarrow> string \<Rightarrow> exc + string" where
  "netloc_of up url = (case up url of Inl e \<Rightarrow> Inl e | Inr (sch, nl) \<Rightarrow> Inr (replace_www nl))"

text \<open>
  A concrete parser for the worked examples, following the library on plain URLs: an
  initial run of scheme characters before the first colon is the scheme;
  after it, a leading \<open>//\<close> opens the netloc, which ends at the first \<open>/\<close>, \<open>?\<close> or
  \<open>#\<close>; a netloc with one square bracket but not the other is an invalid IPv6 URL.
\<close>

definition scheme_char :: "char \<Rightarrow> bool" where
  "scheme_char c = (c \<in> set ''abcdefghijklmnopqrstuvwxyzABCDEFGHIJKLMNOPQRSTUVWXYZ0123456789+-.'')"

definition alpha_char :: "char \<Rightarrow> bool" where
  "alpha_char c = (c \<in> set ''abcdefghijklmnopqrstuvwxyzABCDEFGHIJKLMNOPQRSTUVWXYZ'')"

definition lower_char :: "char \<Rightarrow> char" where
  "lower_char c = (case map_of (zip ''ABCDEFGHIJKLMNOPQRSTUVWXYZ'' ''abcdefghijklmnopqrstuvwxyz'') c
                   of None \<Rightarrow> c | Some l \<Rightarrow> l)"

definition split_scheme :: "string \<Rightarrow> string \<times> string" where
  "split_scheme url =
     (let pre = takeWhile (\<lambda>c. c \<noteq> CHR '':'') url in
      if pre \<noteq> [] \<and> length pre < length url \<and> alpha_char (hd pre) \<and> list_all scheme_char pre
      then (map lower_char pre, drop (length pre + 1) url)
      else ([], url))"

definition simple_urlparse :: url_parser where
  "simple_urlparse url =
     (case split_scheme url of (sch, rest) \<Rightarrow>
        if take 2 rest = ''//'' then
          (let nl = takeWhile (\<lambda>c. c \<notin> set ''/?#'') (drop 2 rest) in
           if (CHR ''['' \<in> set nl) \<noteq> (CHR '']'' \<in> set nl) then Inl ValueError
           else Inr (sch, nl))
        else Inr (sch, []))"

section \<open>Settings\<close>

text \<open>The constants of \<open>config/settings.py\<close> that the modelled code reads; each is an
  integer taken from the environment, with the default below.\<close>

record settings =
  MIN_AUTHENTICITY_SCORE :: int
  MAX_RETRIES :: int
  RATE_LIMIT_CALLS :: int
  RATE_LIMIT_PERIOD :: int

definition default_settings :: settings where
  "default_settings =
     \<lparr>MIN_AUTHENTICITY_SCORE = 75, MAX_RETRIES = 3, RATE_LIMIT_CALLS = 10, RATE_LIMIT_PERIOD = 60\<rparr>"

section \<open>The authenticity validator\<close>

text \<open>
  The authors configuration (\<open>authors.json\<close>), with the entries the validator reads.
  A configured name or title is a string or absent; a blog's \<open>url\<close> is read with
  \<open>blog.get('url', '')\<close>, so an absent one is the empty string.
\<close>

record blog_config =
  blog_name :: "string option"
  blog_url :: string

record author_config =
  official_domains :: "string list"
  blogs :: "blog_config list"
  youtube_channels :: "string option list"
  podcasts :: "string option list"
  books :: "string option list"

text \<open>\<open>authors_config.get(author_id, {})\<close>: the default is a configuration with no
  entries.\<close>

definition no_config :: author_config where
  "no_config = \<lparr>official_domains = [], blogs = [], youtube_channels = [], podcasts = [], books = []\<rparr>"

record validator =
  authors_config :: "(string \<times> author_config) list"
  domain_whitelist :: "(string \<times> string list) list"

text \<open>\<open>_build_domain_whitelist\<close>: the configured official domains of each author, then
  the domain of each configured blog that has a url, unless it is already listed. (The
  source appends to the configuration's own list; the validator never reads that list
  again, so the configuration is left as it was.)\<close>

fun add_blog_domains :: "url_parser \<Rightarrow> blog_config list \<Rightarrow> string list \<Rightarrow> exc + string list" where
  "add_blog_domains up [] domains = Inr domains"
| "add_blog_domains up (blog # rest) domains =
     (if blog_url blog \<noteq> [] then
        (case netloc_of up (blog_url blog) of
           Inl e \<Rightarrow> Inl e
         | Inr domain \<Rightarrow>
             if domain \<noteq> [] \<and> domain \<notin> set domains
             then add_blog_domains up rest (domains @ [domain])
             else add_blog_domains up rest domains)
      else add_blog_domains up rest domains)"

fun build_domain_whitelist ::
  "url_parser \<Rightarrow> (string \<times> author_config) list \<Rightarrow> exc + (string \<times> string list) list" where
  "build_domain_whitelist up [] = Inr []"
| "build_domain_whitelist up ((author_id, config) # rest) =
     (case add_blog_domains up (blogs config) (official_domains config) of
        Inl e \<Rightarrow> Inl e
      | Inr domains \<Rightarrow>
          (case build_domain_whitelist up rest of
             Inl e \<Rightarrow> Inl e
           | Inr whitelist \<Rightarrow> Inr ((author_id, domains) # whitelist)))"

text \<open>\<open>AuthenticityValidator.__init__\<close>.\<close>

definition init_validator :: "url_parser \<Rightarrow> (string \<times> author_config) list \<Rightarrow> exc + validator" where
  "init_validator up config =
     (case build_domain_whitelist up config of
        Inl e \<Rightarrow> Inl e
      | Inr whitelist \<Rightarrow> Inr \<lparr>authors_config = config, domain_whitelist = whitelist\<rparr>)"

subsection \<open>Domain verification\<close>

text \<open>The subdomain loop of \<open>_verify_domain\<close>, with its final \<open>return 0\<close>.\<close>

fun subdomain_loop :: "string \<Rightarrow> string list \<Rightarrow> int" where
  "subdomain_loop domain [] = 0"
| "subdomain_loop domain (official_domain # rest) =
     (if endswith domain (CHR ''.'' # official_domain) \<or> domain = official_domain then 35
      else subdomain_loop domain rest)"

text \<open>\<open>_verify_domain\<close>. The \<open>try\<close> block turns every exception of the parse into
  the score 0; a url that is not a string makes \<open>urlparse\<close> raise.\<close>

definition verify_domain :: "url_parser \<Rightarrow> validator \<Rightarrow> pyval \<Rightarrow> pyval \<Rightarrow> exc + int" where
  "verify_domain up v author_id url =
     (if \<not> truthy url then Inr 0
      else
        (case table_get (domain_whitelist v) author_id [] of
           Inl e \<Rightarrow> Inl e
         | Inr doms \<Rightarrow>
             if doms = [] then Inr 20
             else
               (case url of
                  VStr u \<Rightarrow>
                    (case netloc_of up u of
                       Inl e \<Rightarrow> Inr 0
                     | Inr domain \<Rightarrow>
                         if domain \<in> set doms then Inr 40
                         else Inr (subdomain_loop domain doms))
                | _ \<Rightarrow> Inr 0)))"

subsection \<open>Platform verification\<close>

text \<open>The loops of \<open>_verify_youtube\<close>, \<open>_verify_podcast\<close> and \<open>_verify_book\<close>:
  the first configured entry whose name equals the metadata's decides.\<close>

fun name_loop :: "string option list \<Rightarrow> pyval \<Rightarrow> bool" where
  "name_loop [] x = False"
| "name_loop (n # rest) x = (if name_eq n x then True else name_loop rest x)"

definition verify_twitter :: "author_config \<Rightarrow> pyval \<Rightarrow> exc + int" where
  "verify_twitter config metadata = Inr 40"

definition verify_youtube :: "author_config \<Rightarrow> pyval \<Rightarrow> exc + int" where
  "verify_youtube config metadata =
     (case as_dict metadata of
        Inl e \<Rightarrow> Inl e
      | Inr m \<Rightarrow>
          (let channel_name = dict_get m ''channel_name'' (VStr []);
               channels = youtube_channels config in
           if name_loop channels channel_name then Inr 40
           else if channels = [] then Inr 30
           else Inr 15))"

text \<open>The loop of \<open>_verify_blog\<close>: per blog, first the name, then the domain of its
  url; the parse of a configured url is outside any \<open>try\<close>.\<close>

fun blog_loop :: "url_parser \<Rightarrow> blog_config list \<Rightarrow> pyval \<Rightarrow> pyval \<Rightarrow> exc + int" where
  "blog_loop up [] name domain = Inr 15"
| "blog_loop up (blog # rest) name domain =
     (if name_eq (blog_name blog) name then Inr 40
      else
        (case netloc_of up (blog_url blog) of
           Inl e \<Rightarrow> Inl e
         | Inr blog_domain \<Rightarrow>
             if VStr blog_domain = domain then Inr 40
             else blog_loop up rest name domain))"

definition verify_blog :: "url_parser \<Rightarrow> author_config \<Rightarrow> pyval \<Rightarrow> exc + int" where
  "verify_blog up config metadata =
     (case as_dict metadata of
        Inl e \<Rightarrow> Inl e
      | Inr m \<Rightarrow>
          blog_loop up (blogs config)
            (dict_get m ''blog_name'' (VStr [])) (dict_get m ''domain'' (VStr [])))"

definition verify_podcast :: "author_config \<Rightarrow> pyval \<Rightarrow> exc + int" where
  "verify_podcast config metadata =
     (case as_dict metadata of
        Inl e \<Rightarrow> Inl e
      | Inr m \<Rightarrow>
          if name_loop (podcasts config) (dict_get m ''podcast_name'' (VStr [])) then Inr 40
          else Inr 25)"

definition verify_book :: "author_config \<Rightarrow> pyval \<Rightarrow> exc + int" where
  "verify_book config metadata =
     (case as_dict metadata of
        Inl e \<Rightarrow> Inl e
      | Inr m \<Rightarrow>
          if name_loop (books config) (dict_get m ''book_title'' (VStr [])) then Inr 40
          else Inr 10)"

text \<open>\<open>_verify_platform\<close>.\<close>

definition verify_platform :: "url_parser \<Rightarrow> validator \<Rightarrow> pyval \<Rightarrow> pyval \<Rightarrow> pyval \<Rightarrow> exc + int" where
  "verify_platform up v author_id platform metadata =
     (if \<not> truthy platform then Inr 0
      else
        (case table_get (authors_config v) author_id no_config of
           Inl e \<Rightarrow> Inl e
         | Inr config \<Rightarrow>
             if platform = VStr ''twitter'' then verify_twitter config metadata
             else if platform = VStr ''youtube'' then verify_youtube config metadata
             else if platform = VStr ''blog'' then verify_blog up config metadata
             else if platform = VStr ''podcast'' then verify_podcast config metadata
             else if platform = VStr ''book'' then verify_book config metadata
             else Inr 20))"

subsection \<open>Metadata verification and the total score\<close>

text \<open>\<open>_verify_metadata\<close>.\<close>

definition verify_metadata :: "validator \<Rightarrow> pyval \<Rightarrow> pyval \<Rightarrow> exc + int" where
  "verify_metadata v author_id metadata =
     (case table_get (authors_config v) author_id no_config of
        Inl e \<Rightarrow> Inl e
      | Inr config \<Rightarrow>
          (case as_dict metadata of
             Inl e \<Rightarrow> Inl e
           | Inr m \<Rightarrow>
               (case py_gt (dict_get m ''word_count'' (VInt 0)) 50 of
                  Inl e \<Rightarrow> Inl e
                | Inr long \<Rightarrow>
                    (let s1 = (if long then 5 else 0);
                         s2 = s1 + (if truthy (dict_get m ''metrics'' VNone) then 5 else 0);
                         s3 = s2 + (if truthy (dict_get m ''word_count'' VNone) then 5 else 0);
                         s4 = s3 + (if dict_len m > 2 then 5 else 0)
                     in Inr (min 20 s4)))))"

text \<open>\<open>_calculate_authenticity_score\<close>.\<close>

definition calculate_authenticity_score ::
  "url_parser \<Rightarrow> validator \<Rightarrow> pyval \<Rightarrow> pyval \<Rightarrow> pyval \<Rightarrow> pyval \<Rightarrow> exc + int" where
  "calculate_authenticity_score up v author_id platform url metadata =
     (case verify_domain up v author_id url of
        Inl e \<Rightarrow> Inl e
      | Inr domain_score \<Rightarrow>
          (case verify_platform up v author_id platform metadata of
             Inl e \<Rightarrow> Inl e
           | Inr platform_score \<Rightarrow>
               (case verify_metadata v author_id metadata of
                  Inl e \<Rightarrow> Inl e
                | Inr metadata_score \<Rightarrow>
                    Inr (min 100 (max 0 (domain_score + platform_score + metadata_score))))))"

subsection \<open>Validating records\<close>

text \<open>
  \<open>validate\<close> changes the record in place. The result is the record as returned, or
  the exception raised together with the record as it stands at that moment.
  (Where \<open>content['metadata']\<close> is not a dictionary the score computation has already
  raised, so the last case below is never reached.)
\<close>

definition validate :: "url_parser \<Rightarrow> settings \<Rightarrow> validator \<Rightarrow> pydict \<Rightarrow> exc \<times> pydict + pydict" where
  "validate up cfg v content =
     (let author_id = dict_get content ''author'' VNone in
      if \<not> truthy author_id then Inr (dict_set content ''authenticity_score'' (VInt 0))
      else
        (let platform = dict_get content ''platform'' (VStr []);
             url = dict_get content ''url'' (VStr []);
             metadata = dict_get content ''metadata'' (VDict [])
         in case calculate_authenticity_score up v author_id platform url metadata of
              Inl e \<Rightarrow> Inl (e, content)
            | Inr score \<Rightarrow>
                (let content1 = dict_set content ''authenticity_score'' (VInt score) in
                 case map_of content1 ''metadata'' of
                   None \<Rightarrow> Inl (KeyError, content1)
                 | Some (VDict m) \<Rightarrow>
                     (let m1 = (if \<not> dict_has m ''validation''
                                then dict_set m ''validation'' (VDict []) else m)
                      in case dict_get m1 ''validation'' VNone of
                           VDict val \<Rightarrow>
                             (let val1 = dict_set val ''authenticity_score'' (VInt score);
                                  val2 = dict_set val1 ''passed''
                                           (VBool (score \<ge> MIN_AUTHENTICITY_SCORE cfg))
                              in Inr (dict_set content1 ''metadata''
                                        (VDict (dict_set m1 ''validation'' (VDict val2)))))
                         | _ \<Rightarrow> Inl (TypeError, content1))
                 | Some _ \<Rightarrow> Inl (TypeError, content1))))"

text \<open>\<open>validate_batch\<close>: the loop with its \<open>except Exception\<close> handler, which
  writes the score 0 into the record the failed call was working on.\<close>

fun validate_batch_loop ::
  "url_parser \<Rightarrow> settings \<Rightarrow> validator \<Rightarrow> pydict list \<Rightarrow> pydict list \<Rightarrow> pydict list" where
  "validate_batch_loop up cfg v [] validated = validated"
| "validate_batch_loop up cfg v (content # rest) validated =
     (case validate up cfg v content of
        Inr validated_content \<Rightarrow> validate_batch_loop up cfg v rest (validated @ [validated_content])
      | Inl (e, content') \<Rightarrow>
          validate_batch_loop up cfg v rest
            (validated @ [dict_set content' ''authenticity_score'' (VInt 0)]))"

definition validate_batch :: "url_parser \<Rightarrow> settings \<Rightarrow> validator \<Rightarrow> pydict list \<Rightarrow> pydict list" where
  "validate_batch up cfg v contents = validate_batch_loop up cfg v contents []"




section \<open>Worked examples\<close>

text \<open>A profile with the official domain \<open>tim.blog\<close> and one configured blog, and the
  validator the constructor builds from it.\<close>

definition tim_config :: "(string \<times> author_config) list" where
  "tim_config =
     [(''tim_ferriss'',
       \<lparr>official_domains = [''tim.blog''],
        blogs = [\<lparr>blog_name = Some ''Tim's Blog'', blog_url = ''https://tim.blog''\<rparr>],
        youtube_channels = [Some ''Tim Ferriss''],
        podcasts = [Some ''The Tim Ferriss Show''],
        books = [Some ''The 4-Hour Workweek'']\<rparr>)]"

definition tim_validator :: validator where
  "tim_validator =
     \<lparr>authors_config = tim_config, domain_whitelist = [(''tim_ferriss'', [''tim.blog''])]\<rparr>"

text \<open>The record of the spec's full example, for an author id.\<close>

definition example_metadata :: pydict where
  "example_metadata =
     [(''blog_name'', VStr ''Tim's Blog''), (''word_count'', VInt 500), (''metrics'', VDict [])]"

definition example_record :: "string \<Rightarrow> pydict" where
  "example_record author =
     [(''author'', VStr author), (''platform'', VStr ''blog''),
      (''url'', VStr ''https://tim.blog/x''), (''metadata'', VDict example_metadata)]"


text \<open>A record whose word count is not a number: scoring it raises \<open>TypeError\<close>.\<close>

definition bad_record :: pydict where
  "bad_record =
     [(''author'', VStr ''tim_ferriss''), (''platform'', VStr ''twitter''),
      (''url'', VStr ''https://tim.blog/y''),
      (''metadata'', VDict [(''word_count'', VStr ''many'')])]"

text \<open>A record whose metadata has exactly two entries, and the record as validated
  with a given score and verdict.\<close>

definition two_key_record :: pydict where
  "two_key_record =
     [(''author'', VStr ''someone_else''), (''platform'', VStr ''twitter''),
      (''url'', VStr ''https://twitter.com/someone/status/1''),
      (''metadata'', VDict [(''word_count'', VInt 100), (''lang'', VStr ''en'')])]"


definition two_key_validated :: "int \<Rightarrow> bool \<Rightarrow> pydict" where
  "two_key_validated score passed =
     [(''author'', VStr ''someone_else''), (''platform'', VStr ''twitter''),
      (''url'', VStr ''https://twitter.com/someone/status/1''),
      (''metadata'', VDict [(''word_count'', VInt 100), (''lang'', VStr ''en''),
         (''validation'', VDict [(''authenticity_score'', VInt score), (''passed'', VBool passed)])]),
      (''authenticity_score'', VInt score)]"

text \<open>A profile with no official domain and one configured blog, and the validator the
  constructor builds from it: the blog's domain is on the author's whitelist.\<close>

definition blog_only_config :: "(string \<times> author_config) list" where
  "blog_only_config =
     [(''tim_ferriss'',
       \<lparr>official_domains = [],
        blogs = [\<lparr>blog_name = Some ''Tim's Blog'', blog_url = ''https://www.tim.blog''\<rparr>],
        youtube_channels = [], podcasts = [], books = []\<rparr>)]"

definition blog_only_validator :: validator where
  "blog_only_validator =
     \<lparr>authors_config = blog_only_config, domain_whitelist = [(''tim_ferriss'', [''tim.blog''])]\<rparr>"

section \<open>The rate limiter\<close>

text \<open>
  \<open>RateLimiter\<close>: the two constructor arguments and the deque of recorded timestamps,
  oldest first. The lock serialises the callers, so a call runs alone.
\<close>

record limiter =
  calls :: int
  period :: int
  timestamps :: "real list"

text \<open>\<open>RateLimiter(calls, period)\<close>.\<close>

definition new_limiter :: "int \<Rightarrow> int \<Rightarrow> limiter" where
  "new_limiter c p = \<lparr>calls = c, period = p, timestamps = []\<rparr>"

text \<open>The eviction loop:
  \<open>while self.timestamps and self.timestamps[0] <= now - self.period: popleft()\<close>.\<close>

definition evict :: "real \<Rightarrow> int \<Rightarrow> real list \<Rightarrow> real list" where
  "evict now p ts = dropWhile (\<lambda>t. t \<le> now - real_of_int p) ts"

text \<open>
  \<open>wait_if_needed\<close>. Time is the clock's reading, a real number of seconds. The clock
  and \<open>time.sleep\<close> belong to the environment, which gives each call two numbers:
  \<open>lag\<close>, the time gone by since the previous reading when the call reads the clock,
  and \<open>oversleep\<close>, by how much a \<open>time.sleep(d)\<close> of this call lasts longer than
  \<open>d\<close> (a negative number when the clock is set back meanwhile). The call returns the
  argument of its \<open>time.sleep\<close> when it slept, the reading it recorded (the clock's last
  reading) and the limiter; \<open>self.timestamps[0]\<close> on an empty deque raises \<open>IndexError\<close>.
  After the sleep the call evicts once more and appends, whatever the deque then holds.
\<close>

definition wait_if_needed ::
  "real \<times> real \<Rightarrow> real \<times> limiter \<Rightarrow> exc + real option \<times> real \<times> limiter" where
  "wait_if_needed env st =
     (case env of (lag, oversleep) \<Rightarrow> case st of (clock, l) \<Rightarrow>
        (let now = clock + lag;
             ts = evict now (period l) (timestamps l)
         in if int (length ts) \<ge> calls l then
              (case ts of
                 [] \<Rightarrow> Inl IndexError
               | oldest # _ \<Rightarrow>
                   (let sleep_time = real_of_int (period l) - (now - oldest) in
                    if sleep_time > 0 then
                      (let now' = now + sleep_time + oversleep;
                           ts' = evict now' (period l) ts
                       in Inr (Some sleep_time, now', l\<lparr>timestamps := ts' @ [now']\<rparr>))
                    else Inr (None, now, l\<lparr>timestamps := ts @ [now]\<rparr>)))
            else Inr (None, now, l\<lparr>timestamps := ts @ [now]\<rparr>)))"

text \<open>A sequence of calls on one limiter, one environment entry per call. The last two
  components collect every timestamp the calls record and, call by call, the sleep the
  call asked for, oldest first; the sequence stops at the first exception.\<close>

fun acquire_all ::
  "(real \<times> real) list \<Rightarrow> real \<times> limiter \<Rightarrow> real list \<Rightarrow> real option list
     \<Rightarrow> exc + (real \<times> limiter) \<times> real list \<times> real option list" where
  "acquire_all [] st recorded sleeps = Inr (st, recorded, sleeps)"
| "acquire_all (env # envs) st recorded sleeps =
     (case wait_if_needed env st of
        Inl e \<Rightarrow> Inl e
      | Inr (slept, now, l) \<Rightarrow> acquire_all envs (now, l) (recorded @ [now]) (sleeps @ [slept]))"

text \<open>The number of recorded timestamps in the trailing window of length \<open>p\<close> that
  ends at the instant \<open>t\<close>: those newer than \<open>t - p\<close> and not after \<open>t\<close>.\<close>

definition in_window :: "int \<Rightarrow> real \<Rightarrow> real list \<Rightarrow> nat" where
  "in_window p t recorded = length (filter (\<lambda>a. t - real_of_int p < a \<and> a \<le> t) recorded)"

text \<open>The invariant of the limiter's runs, for the proofs: the deque \<open>ts\<close> is the
  tail of the recorded timestamps, what was evicted is at least a period old, the
  recorded timestamps are in order and not after the clock, the deque holds at most
  \<open>n\<close>, and timestamps \<open>n\<close> places apart are at least a period apart.\<close>

definition limiter_inv :: "nat \<Rightarrow> real \<Rightarrow> real \<Rightarrow> real list \<Rightarrow> real list \<Rightarrow> bool" where
  "limiter_inv n p now ts recorded \<longleftrightarrow>
     (\<exists>old. recorded = old @ ts \<and> (\<forall>x\<in>set old. x + p \<le> now))
     \<and> sorted recorded \<and> (\<forall>x\<in>set recorded. x \<le> now)
     \<and> length ts \<le> n
     \<and> (\<forall>i j. i + n \<le> j \<and> j < length recorded \<longrightarrow> recorded ! i + p \<le> recorded ! j)"

text \<open>What call \<open>j\<close> of a run does, for the proofs: \<open>before\<close> is the clock's reading
  when the call starts. When the \<open>n\<close> latest timestamps are all newer than
  \<open>before - p\<close> the call sleeps until the oldest of them is a period old and records the
  reading after the sleep; otherwise it records \<open>before\<close> without sleeping.\<close>

definition scheduled ::
  "real \<Rightarrow> nat \<Rightarrow> real \<Rightarrow> (real \<times> real) list \<Rightarrow> real list \<Rightarrow> real option list \<Rightarrow> nat \<Rightarrow> bool" where
  "scheduled clock0 n p envs recorded sleeps j =
     (let before = (if j = 0 then clock0 else recorded ! (j - 1)) + fst (envs ! j);
          full = (n \<le> j \<and> before < recorded ! (j - n) + p)
      in sleeps ! j = (if full then Some (p - (before - recorded ! (j - n))) else None)
       \<and> recorded ! j = (if full then before + (p - (before - recorded ! (j - n))) + snd (envs ! j)
                         else before))"

section \<open>The fetch gateway\<close>

text \<open>
  \<open>_create_session\<close>: the session's adapter retries by a \<open>urllib3\<close> \<open>Retry\<close> strategy with
  these arguments.
\<close>

record retry_strategy =
  total :: int
  backoff_factor :: int
  status_forcelist :: "nat list"
  allowed_methods :: "string list"

definition create_session :: "settings \<Rightarrow> retry_strategy" where
  "create_session cfg =
     \<lparr>total = MAX_RETRIES cfg, backoff_factor = 1,
      status_forcelist = [429, 500, 502, 503, 504],
      allowed_methods = [''HEAD'', ''GET'', ''OPTIONS'', ''POST'']\<rparr>"

text \<open>
  \<open>BaseScraper\<close>, with what \<open>fetch_url\<close> reads and writes: the session, the rate limiter,
  the cache of robot parsers by base url (\<open>None\<close> where robots.txt could not be read) and
  the request statistics. A robot parser is taken as its answer to
  \<open>rp.can_fetch(User-Agent, url)\<close>. Four more fields are not attributes of the object
  but a trace of what it has done: the clock's last reading, the urls that
  \<open>RobotFileParser.read\<close> has opened (for an http url, a GET of the host's robots.txt),
  the requests the session has sent (method and url), and the waits the retry decorator
  has slept.
\<close>

type_synonym robot_parser = "string \<Rightarrow> bool"

record request_stats =
  total_requests :: int
  successful_requests :: int
  failed_requests :: int
  items_scraped :: int
  items_filtered :: int

record scraper =
  session :: retry_strategy
  rate_limiter :: limiter
  robot_parsers :: "(string \<times> robot_parser option) list"
  stats :: request_stats
  clock_reading :: real
  robots_reads :: "string list"
  requests_sent :: "(string \<times> string) list"
  backoffs :: "int list"

text \<open>\<open>BaseScraper.__init__\<close>, at a clock reading.\<close>

definition new_scraper :: "settings \<Rightarrow> real \<Rightarrow> scraper" where
  "new_scraper cfg now =
     \<lparr>session = create_session cfg,
      rate_limiter = new_limiter (RATE_LIMIT_CALLS cfg) (RATE_LIMIT_PERIOD cfg),
      robot_parsers = [],
      stats = \<lparr>total_requests = 0, successful_requests = 0, failed_requests = 0,
               items_scraped = 0, items_filtered = 0\<rparr>,
      clock_reading = now, robots_reads = [], requests_sent = [], backoffs = []\<rparr>"

text \<open>
  The environment of one attempt: the clock's lag and oversleep for the limiter, and
  what the server does with each request the session sends during the attempt, counted
  from 0: it answers with a status code, or the connection fails. The environment of the
  scraper: what reading a robots.txt url gives, a parser or \<open>None\<close> when the read
  raises.
\<close>

datatype wire_reply = Answer nat | Failure

datatype net_outcome = Response nat | Raises exc

record attempt_env =
  env_lag :: real
  env_oversleep :: real
  env_replies :: "nat \<Rightarrow> wire_reply"

text \<open>The two urls that \<open>_get_robot_parser\<close> formats:
  \<open>f"{parsed_url.scheme}://{parsed_url.netloc}"\<close> and \<open>f"{base_url}/robots.txt"\<close>.\<close>

definition base_url :: "string \<Rightarrow> string \<Rightarrow> string" where
  "base_url scheme netloc = scheme @ ''://'' @ netloc"

definition robots_url :: "string \<Rightarrow> string" where
  "robots_url base = base @ ''/robots.txt''"

text \<open>\<open>_get_robot_parser\<close>: the parse of the url is outside the \<open>try\<close>; a host that is
  not in the cache is read, which opens its robots.txt url, and cached.\<close>

definition get_robot_parser ::
  "url_parser \<Rightarrow> (string \<Rightarrow> robot_parser option) \<Rightarrow> string \<Rightarrow> scraper
     \<Rightarrow> (exc + robot_parser option) \<times> scraper" where
  "get_robot_parser up robots url s =
     (case up url of
        Inl e \<Rightarrow> (Inl e, s)
      | Inr (scheme, netloc) \<Rightarrow>
          (let base = base_url scheme netloc in
           case map_of (robot_parsers s) base of
             None \<Rightarrow>
               (let rp = robots (robots_url base) in
                (Inr rp,
                 s\<lparr>robot_parsers := AList.update base rp (robot_parsers s),
                   robots_reads := robots_reads s @ [robots_url base]\<rparr>))
           | Some rp \<Rightarrow> (Inr rp, s)))"

text \<open>\<open>can_fetch\<close>.\<close>

definition can_fetch ::
  "url_parser \<Rightarrow> (string \<Rightarrow> robot_parser option) \<Rightarrow> string \<Rightarrow> scraper \<Rightarrow> (exc + bool) \<times> scraper" where
  "can_fetch up robots url s =
     (case get_robot_parser up robots url s of
        (Inl e, s') \<Rightarrow> (Inl e, s')
      | (Inr None, s') \<Rightarrow> (Inr True, s')
      | (Inr (Some rp), s') \<Rightarrow> (Inr (rp url), s'))"

text \<open>
  \<open>self.session.request(method, url)\<close>, by the rules of the requests and urllib3
  libraries for a session mounted with the adapter of \<open>_create_session\<close>. The method is
  put in upper case. A status on the force list, for a method on the allowed list, is
  not returned: the adapter sends the request again while retries are left and then
  raises, which requests passes on as its own \<open>RetryError\<close>. A failed connection is
  retried likewise and ends in a transport error. Every other status is returned as the
  response. The result comes with the number of requests sent. (The adapter's sleeps
  between its retries, redirects and \<open>Retry-After\<close> headers are left out.)
\<close>

definition upper_char :: "char \<Rightarrow> char" where
  "upper_char c = (case map_of (zip ''abcdefghijklmnopqrstuvwxyz'' ''ABCDEFGHIJKLMNOPQRSTUVWXYZ'') c
                   of None \<Rightarrow> c | Some u \<Rightarrow> u)"

definition is_retry :: "retry_strategy \<Rightarrow> string \<Rightarrow> nat \<Rightarrow> bool" where
  "is_retry rs meth status =
     ((allowed_methods rs = [] \<or> map upper_char meth \<in> set (allowed_methods rs))
      \<and> status \<in> set (status_forcelist rs))"

function session_send ::
  "retry_strategy \<Rightarrow> string \<Rightarrow> (nat \<Rightarrow> wire_reply) \<Rightarrow> int \<Rightarrow> nat \<Rightarrow> net_outcome \<times> nat" where
  "session_send rs meth replies left sent =
     (case replies sent of
        Failure \<Rightarrow>
          if left \<le> 0 then (Raises TransportError, Suc sent)
          else session_send rs meth replies (left - 1) (Suc sent)
      | Answer status \<Rightarrow>
          if is_retry rs meth status then
            (if left \<le> 0 then (Raises RequestsRetryError, Suc sent)
             else session_send rs meth replies (left - 1) (Suc sent))
          else (Response status, Suc sent))"
  by pat_completeness auto
termination
  by (relation "measure (\<lambda>(rs, meth, replies, left, sent). nat left)") auto

definition session_request :: "retry_strategy \<Rightarrow> string \<Rightarrow> (nat \<Rightarrow> wire_reply) \<Rightarrow> net_outcome \<times> nat" where
  "session_request rs meth replies = session_send rs meth replies (total rs) 0"

text \<open>\<open>isinstance(e, requests.RequestException)\<close>.\<close>

fun is_request_exception :: "exc \<Rightarrow> bool" where
  "is_request_exception (HTTPError status) = True"
| "is_request_exception TransportError = True"
| "is_request_exception RequestsRetryError = True"
| "is_request_exception e = False"

text \<open>\<open>response.raise_for_status()\<close>: an \<open>HTTPError\<close> for a status from 400 to 599.\<close>

definition raise_for_status :: "nat \<Rightarrow> exc + nat" where
  "raise_for_status status =
     (if 400 \<le> status \<and> status < 600 then Inl (HTTPError status) else Inr status)"

text \<open>\<open>response = self.session.request(...)\<close>, then \<open>response.raise_for_status()\<close>.\<close>

definition request_result :: "net_outcome \<Rightarrow> exc + nat" where
  "request_result outcome =
     (case outcome of Raises e \<Rightarrow> Inl e | Response status \<Rightarrow> raise_for_status status)"

text \<open>The body of \<open>fetch_url\<close>: one attempt. It returns the response (its status) or
  the exception raised, and the scraper as it stands then.\<close>

definition fetch_attempt ::
  "url_parser \<Rightarrow> (string \<Rightarrow> robot_parser option) \<Rightarrow> attempt_env \<Rightarrow> string \<Rightarrow> string \<Rightarrow> scraper
     \<Rightarrow> (exc + nat) \<times> scraper" where
  "fetch_attempt up robots env url meth s =
     (case can_fetch up robots url s of
        (Inl e, s1) \<Rightarrow> (Inl e, s1)
      | (Inr allowed, s1) \<Rightarrow>
          if \<not> allowed then (Inl ValueError, s1)
          else
            (case wait_if_needed (env_lag env, env_oversleep env) (clock_reading s1, rate_limiter s1) of
               Inl e \<Rightarrow> (Inl e, s1)
             | Inr (slept, now, l) \<Rightarrow>
                 (let s2 = s1\<lparr>rate_limiter := l, clock_reading := now,
                              stats := (stats s1)\<lparr>total_requests := total_requests (stats s1) + 1\<rparr>\<rparr>
                  in case session_request (session s2) meth (env_replies env) of
                       (outcome, sent) \<Rightarrow>
                         (let s3 = s2\<lparr>requests_sent := requests_sent s2
                                         @ replicate sent (map upper_char meth, url)\<rparr>
                          in case request_result outcome of
                               Inr response \<Rightarrow>
                                 (Inr response,
                                  s3\<lparr>stats := (stats s3)\<lparr>successful_requests :=
                                                           successful_requests (stats s3) + 1\<rparr>\<rparr>)
                             | Inl e \<Rightarrow>
                                 if is_request_exception e
                                 then (Inl e, s3\<lparr>stats := (stats s3)\<lparr>failed_requests :=
                                                                       failed_requests (stats s3) + 1\<rparr>\<rparr>)
                                 else (Inl e, s3)))))"

text \<open>
  The \<open>@retry\<close> decorator of \<open>fetch_url\<close>, by the tenacity library's rules:
  \<open>retry_if_exception_type((requests.RequestException, ConnectionError))\<close> retries on an
  exception of either class; \<open>stop_after_attempt(k)\<close> stops once the attempt number has
  reached \<open>k\<close>; \<open>wait_exponential(multiplier, min, max)\<close> waits
  \<open>max(max(0, min), min(multiplier * 2 ** (attempt - 1), max))\<close> seconds. When it stops,
  the decorator raises its own \<open>RetryError\<close> (\<open>reraise\<close> is not set).
\<close>

definition retry_if_exception_type :: "exc \<Rightarrow> bool" where
  "retry_if_exception_type e = (is_request_exception e \<or> e = ConnectionError)"

definition stop_after_attempt :: "int \<Rightarrow> nat \<Rightarrow> bool" where
  "stop_after_attempt max_attempt_number attempt_number = (int attempt_number \<ge> max_attempt_number)"

definition wait_exponential :: "int \<Rightarrow> int \<Rightarrow> int \<Rightarrow> nat \<Rightarrow> int" where
  "wait_exponential multiplier mn mx attempt_number =
     max (max 0 mn) (min (multiplier * 2 ^ (attempt_number - 1)) mx)"

function retry_loop ::
  "url_parser \<Rightarrow> (string \<Rightarrow> robot_parser option) \<Rightarrow> settings \<Rightarrow> (nat \<Rightarrow> attempt_env)
     \<Rightarrow> string \<Rightarrow> string \<Rightarrow> nat \<Rightarrow> scraper \<Rightarrow> (exc + nat) \<times> scraper" where
  "retry_loop up robots cfg envs url meth n s =
     (case fetch_attempt up robots (envs n) url meth s of
        (Inr response, s') \<Rightarrow> (Inr response, s')
      | (Inl e, s') \<Rightarrow>
          if \<not> retry_if_exception_type e then (Inl e, s')
          else if stop_after_attempt (MAX_RETRIES cfg) n then (Inl RetryError, s')
          else
            (let wait = wait_exponential 1 4 10 n in
             retry_loop up robots cfg envs url meth (Suc n)
               (s'\<lparr>clock_reading := clock_reading s' + real_of_int wait, backoffs := backoffs s' @ [wait]\<rparr>)))"
  by pat_completeness auto
termination
  by (relation "measure (\<lambda>(up, robots, cfg, envs, url, meth, n, s). nat (MAX_RETRIES cfg) - n)")
     (auto simp: stop_after_attempt_def)

text \<open>\<open>fetch_url\<close> as decorated: attempts are numbered from 1, and \<open>envs n\<close> is the
  environment of attempt \<open>n\<close>.\<close>

definition fetch_url ::
  "url_parser \<Rightarrow> (string \<Rightarrow> robot_parser option) \<Rightarrow> settings \<Rightarrow> (nat \<Rightarrow> attempt_env)
     \<Rightarrow> string \<Rightarrow> string \<Rightarrow> scraper \<Rightarrow> (exc + nat) \<times> scraper" where
  "fetch_url up robots cfg envs url meth s = retry_loop up robots cfg envs url meth 1 s"

text \<open>A caller that fetches one url after the other and goes on after an error; it
  returns what each call returned or raised.\<close>

fun fetch_each ::
  "url_parser \<Rightarrow> (string \<Rightarrow> robot_parser option) \<Rightarrow> settings \<Rightarrow> string
     \<Rightarrow> (string \<times> (nat \<Rightarrow> attempt_env)) list \<Rightarrow> scraper \<Rightarrow> (exc + nat) list \<times> scraper" where
  "fetch_each up robots cfg meth [] s = ([], s)"
| "fetch_each up robots cfg meth ((url, envs) # rest) s =
     (case fetch_url up robots cfg envs url meth s of
        (r, s') \<Rightarrow> (case fetch_each up robots cfg meth rest s' of (rs, s'') \<Rightarrow> (r # rs, s'')))"

text \<open>A scraper that has fetched one page of a host without a readable robots.txt,
  attempts that would succeed, and hosts whose robots.txt disallows everything.\<close>

definition busy_scraper :: scraper where
  "busy_scraper =
     \<lparr>session = create_session default_settings,
      rate_limiter = \<lparr>calls = 10, period = 60, timestamps = [5]\<rparr>,
      robot_parsers = [(''https://tim.blog'', None)],
      stats = \<lparr>total_requests = 1, successful_requests = 1, failed_requests = 0,
               items_scraped = 0, items_filtered = 0\<rparr>,
      clock_reading = 5, robots_reads = [''https://tim.blog/robots.txt''],
      requests_sent = [(''GET'', ''https://tim.blog/x'')], backoffs = []\<rparr>"

definition ok_envs :: "nat \<Rightarrow> attempt_env" where
  "ok_envs n = \<lparr>env_lag = 0, env_oversleep = 0, env_replies = (\<lambda>i. Answer 200)\<rparr>"

definition disallow_all :: "string \<Rightarrow> robot_parser option" where
  "disallow_all robots_txt = Some (\<lambda>url. False)"

text \<open>A host that answers 404 to every request, one that answers 503 to every request,
  and hosts without a readable robots.txt.\<close>

definition not_found_envs :: "nat \<Rightarrow> attempt_env" where
  "not_found_envs n = \<lparr>env_lag = 0, env_oversleep = 0, env_replies = (\<lambda>i. Answer 404)\<rparr>"

definition unavailable_envs :: "nat \<Rightarrow> attempt_env" where
  "unavailable_envs n = \<lparr>env_lag = 0, env_oversleep = 0, env_replies = (\<lambda>i. Answer 503)\<rparr>"

definition no_robots :: "string \<Rightarrow> robot_parser option" where
  "no_robots robots_txt = None"

section \<open>Properties of the validator\<close>

lemmas urlparse_simps =
  netloc_of_def simple_urlparse_def split_scheme_def alpha_char_def scheme_char_def lower_char_def

lemma init_tim_validator: "init_validator simple_urlparse tim_config = Inr tim_validator"
  by (simp add: init_validator_def tim_config_def tim_validator_def urlparse_simps)

lemma name_loop_iff: "name_loop ns x = (\<exists>n\<in>set ns. name_eq n x)"
  by (induction ns) auto

lemma subdomain_loop_eq:
  "subdomain_loop h ds = (if \<exists>d\<in>set ds. endswith h (CHR ''.'' # d) \<or> h = d then 35 else 0)"
  by (induction ds) auto

lemma replace_www_strip: "replace_www (''www.'' @ h) = replace_www h"
  by simp

lemma replace_www_free: "\<not> sublist ''www.'' h \<Longrightarrow> replace_www h = h"
proof (induction h rule: replace_www.induct)
  case (1 a b c d rest)
  from "1.prems" have np: "\<not> prefix ''www.'' (a # b # c # d # rest)"
    and ns: "\<not> sublist ''www.'' (b # c # d # rest)"
    by (auto simp: sublist_Cons_right)
  from np have ne: "[a, b, c, d] \<noteq> ''www.''" by auto
  with 1 ns show ?case by auto
qed simp_all

lemma add_blog_domains_set:
  "add_blog_domains up bs ds = Inr r \<Longrightarrow>
     set r = set ds \<union> {h. \<exists>b\<in>set bs. blog_url b \<noteq> [] \<and> netloc_of up (blog_url b) = Inr h \<and> h \<noteq> []}"
proof (induction bs arbitrary: ds)
  case Nil
  then show ?case by auto
next
  case (Cons b bs)
  show ?case
  proof (cases "blog_url b = []")
    case True
    with Cons.prems have "add_blog_domains up bs ds = Inr r" by simp
    from Cons.IH [OF this] True show ?thesis by auto
  next
    case False
    with Cons.prems obtain h where h: "netloc_of up (blog_url b) = Inr h"
      by (auto split: sum.splits)
    show ?thesis
    proof (cases "h \<noteq> [] \<and> h \<notin> set ds")
      case True
      with Cons.prems False h have "add_blog_domains up bs (ds @ [h]) = Inr r" by simp
      from Cons.IH [OF this] False h True show ?thesis by auto
    next
      case nt: False
      with Cons.prems False h have "add_blog_domains up bs ds = Inr r" by auto
      from Cons.IH [OF this] False h nt show ?thesis by auto
    qed
  qed
qed

lemma build_domain_whitelist_lookup:
  "build_domain_whitelist up config = Inr wl \<Longrightarrow>
     (case map_of config a of
        None \<Rightarrow> map_of wl a = None
      | Some c \<Rightarrow> \<exists>ds. map_of wl a = Some ds
                    \<and> add_blog_domains up (blogs c) (official_domains c) = Inr ds)"
proof (induction config arbitrary: wl)
  case Nil
  then show ?case by simp
next
  case (Cons ac config)
  obtain a' c' where ac: "ac = (a', c')" by (cases ac)
  from Cons.prems ac obtain ds wl' where
    ds: "add_blog_domains up (blogs c') (official_domains c') = Inr ds"
    and wl': "build_domain_whitelist up config = Inr wl'"
    and wl: "wl = (a', ds) # wl'"
    by (auto split: sum.splits)
  from Cons.IH [OF wl'] ds wl ac show ?case by (auto split: option.splits)
qed

lemma whitelist_of_profile:
  assumes init: "init_validator up config = Inr v"
    and profile: "profile = (case map_of config a of None \<Rightarrow> no_config | Some c \<Rightarrow> c)"
  shows "set (case map_of (domain_whitelist v) a of None \<Rightarrow> [] | Some ds \<Rightarrow> ds) =
           set (official_domains profile)
           \<union> {d. \<exists>b\<in>set (blogs profile). blog_url b \<noteq> []
                     \<and> netloc_of up (blog_url b) = Inr d \<and> d \<noteq> []}"
proof -
  from init obtain wl where wl: "build_domain_whitelist up config = Inr wl"
    and v: "domain_whitelist v = wl"
    by (auto simp: init_validator_def split: sum.splits)
  show ?thesis
  proof (cases "map_of config a")
    case None
    with build_domain_whitelist_lookup [OF wl, of a] have "map_of wl a = None" by simp
    with None profile v show ?thesis by (simp add: no_config_def)
  next
    case (Some c)
    with build_domain_whitelist_lookup [OF wl, of a] obtain ds where
      ds: "map_of wl a = Some ds"
      and add: "add_blog_domains up (blogs c) (official_domains c) = Inr ds"
      by auto
    from add_blog_domains_set [OF add] Some profile ds v show ?thesis by simp
  qed
qed

text \<open>
  C5, as stated, fails in three ways. A profile with no official domain but a configured
  blog does not score 20: the constructor puts the blog's domain on the whitelist, so a
  url of another host scores 0. A url that names a port scores 0 although its host is
  an official domain, because the code compares the netloc. And \<open>awww.tim.blog\<close>, a
  subdomain of \<open>tim.blog\<close>, scores 0, because \<open>replace('www.', '')\<close> removes the four
  characters wherever they occur.
\<close>

theorem verify_domain_counterexample:
  "init_validator simple_urlparse blog_only_config = Inr blog_only_validator
   \<and> official_domains (snd (hd blog_only_config)) = []
   \<and> verify_domain simple_urlparse blog_only_validator (VStr ''tim_ferriss'') (VStr ''https://evil.com/x'') = Inr 0
   \<and> verify_domain simple_urlparse tim_validator (VStr ''tim_ferriss'') (VStr ''https://tim.blog:443/post/1'') = Inr 0
   \<and> verify_domain simple_urlparse tim_validator (VStr ''tim_ferriss'') (VStr ''https://awww.tim.blog/x'') = Inr 0"
  by (simp add: init_validator_def blog_only_config_def blog_only_validator_def tim_validator_def
        verify_domain_def urlparse_simps endswith_def)

text \<open>
  C5, amended. Let the validator be built from a configuration, and let the domains
  configured for author \<open>a\<close> be the official domains of the author's profile together
  with the domain of each configured blog that has a url (none when the author is
  unknown). Then the domain sub-score is 0 for a missing or empty url, and otherwise 20
  when no domain is configured. When some domain is configured and the url's netloc is
  a host name, or \<open>www.\<close> followed by a host name, where the host name has no \<open>www.\<close>
  inside and names no port or user, the score is 40 when the host name is a configured
  domain, 35 when it ends with a dot followed by a configured domain, and 0 otherwise.
\<close>

theorem verify_domain_rule:
  assumes init: "init_validator up config = Inr v"
    and profile: "profile = (case map_of config a of None \<Rightarrow> no_config | Some c \<Rightarrow> c)"
    and doms: "doms = set (official_domains profile)
                 \<union> {d. \<exists>b\<in>set (blogs profile). blog_url b \<noteq> []
                           \<and> netloc_of up (blog_url b) = Inr d \<and> d \<noteq> []}"
  shows "(\<not> truthy url \<longrightarrow> verify_domain up v (VStr a) url = Inr 0)
       \<and> (truthy url \<and> doms = {} \<longrightarrow> verify_domain up v (VStr a) url = Inr 20)
       \<and> (url = VStr u \<and> u \<noteq> [] \<and> doms \<noteq> {} \<and> up u = Inr (sch, nl)
            \<and> (nl = ''www.'' @ host \<or> nl = host) \<and> \<not> sublist ''www.'' host
            \<and> CHR '':'' \<notin> set host \<and> CHR ''@'' \<notin> set host
          \<longrightarrow> verify_domain up v (VStr a) url =
                Inr (if host \<in> doms then 40
                     else if \<exists>d\<in>doms. endswith host (CHR ''.'' # d) then 35
                     else 0))"
proof -
  define ds where "ds = (case map_of (domain_whitelist v) a of None \<Rightarrow> [] | Some ds \<Rightarrow> ds)"
  from whitelist_of_profile [OF init profile] doms have set_ds: "set ds = doms"
    by (simp add: ds_def)
  have tg: "table_get (domain_whitelist v) (VStr a) [] = Inr ds"
    by (simp add: ds_def)
  have missing: "\<not> truthy url \<longrightarrow> verify_domain up v (VStr a) url = Inr 0"
    by (simp add: verify_domain_def)
  have neutral: "truthy url \<and> doms = {} \<longrightarrow> verify_domain up v (VStr a) url = Inr 20"
  proof
    assume a: "truthy url \<and> doms = {}"
    with set_ds have "ds = []" by simp
    with a tg show "verify_domain up v (VStr a) url = Inr 20"
      by (simp add: verify_domain_def)
  qed
  have rule: "verify_domain up v (VStr a) url =
                Inr (if host \<in> doms then 40
                     else if \<exists>d\<in>doms. endswith host (CHR ''.'' # d) then 35
                     else 0)"
    if u: "url = VStr u" "u \<noteq> []" and ne: "doms \<noteq> {}" and parse: "up u = Inr (sch, nl)"
      and nl: "nl = ''www.'' @ host \<or> nl = host" and free: "\<not> sublist ''www.'' host"
  proof -
    from nl free have "replace_www nl = host"
      using replace_www_free [OF free] replace_www_strip [of host] by auto
    with parse have host: "netloc_of up u = Inr host" by (simp add: netloc_of_def)
    from ne set_ds have "ds \<noteq> []" by auto
    with u tg host set_ds show ?thesis
      by (auto simp: verify_domain_def subdomain_loop_eq)
  qed
  from missing neutral rule show ?thesis by blast
qed

theorem verify_domain_rule_witness:
  "init_validator simple_urlparse tim_config = Inr tim_validator
   \<and> verify_domain simple_urlparse tim_validator (VStr ''tim_ferriss'') (VStr ''https://www.tim.blog/post/1'') = Inr 40
   \<and> verify_domain simple_urlparse tim_validator (VStr ''tim_ferriss'') (VStr ''https://www.sub.tim.blog/x'') = Inr 35
   \<and> verify_domain simple_urlparse tim_validator (VStr ''tim_ferriss'') (VStr ''https://evil.com/x'') = Inr 0
   \<and> verify_domain simple_urlparse tim_validator (VStr ''someone_else'') (VStr ''https://evil.com/x'') = Inr 20
   \<and> verify_domain simple_urlparse tim_validator (VStr ''tim_ferriss'') (VStr []) = Inr 0"
proof -
  note init = init_tim_validator
  have tim: "(case map_of tim_config ''tim_ferriss'' of None \<Rightarrow> no_config | Some c \<Rightarrow> c)
               = snd (hd tim_config)"
    by (simp add: tim_config_def)
  have other: "(case map_of tim_config ''someone_else'' of None \<Rightarrow> no_config | Some c \<Rightarrow> c)
               = no_config"
    by (simp add: tim_config_def)
  have doms: "set (official_domains (snd (hd tim_config)))
                 \<union> {d. \<exists>b\<in>set (blogs (snd (hd tim_config))). blog_url b \<noteq> []
                           \<and> netloc_of simple_urlparse (blog_url b) = Inr d \<and> d \<noteq> []}
              = {''tim.blog''}"
    by (auto simp: tim_config_def urlparse_simps)
  have none: "set (official_domains no_config)
                 \<union> {d. \<exists>b\<in>set (blogs no_config). blog_url b \<noteq> []
                           \<and> netloc_of simple_urlparse (blog_url b) = Inr d \<and> d \<noteq> []}
              = {}"
    by (simp add: no_config_def)
  have a: "verify_domain simple_urlparse tim_validator (VStr ''tim_ferriss'') (VStr ''https://www.tim.blog/post/1'') = Inr 40"
using verify_domain_rule [where url = "VStr ''https://www.tim.blog/post/1''" and u = "''https://www.tim.blog/post/1''" and sch = "''https''"
              and nl = "''www.tim.blog''" and host = "''tim.blog''", OF init tim [symmetric] doms [symmetric]]
    by (simp add: urlparse_simps endswith_def sublist_Cons_right)
  have b: "verify_domain simple_urlparse tim_validator (VStr ''tim_ferriss'') (VStr ''https://www.sub.tim.blog/x'') = Inr 35"
using verify_domain_rule [where url = "VStr ''https://www.sub.tim.blog/x''" and u = "''https://www.sub.tim.blog/x''" and sch = "''https''"
              and nl = "''www.sub.tim.blog''" and host = "''sub.tim.blog''", OF init tim [symmetric] doms [symmetric]]
    by (simp add: urlparse_simps endswith_def sublist_Cons_right)
  have c: "verify_domain simple_urlparse tim_validator (VStr ''tim_ferriss'') (VStr ''https://evil.com/x'') = Inr 0"
using verify_domain_rule [where url = "VStr ''https://evil.com/x''" and u = "''https://evil.com/x''" and sch = "''https''"
              and nl = "''evil.com''" and host = "''evil.com''", OF init tim [symmetric] doms [symmetric]]
    by (simp add: urlparse_simps endswith_def sublist_Cons_right)
  have d: "verify_domain simple_urlparse tim_validator (VStr ''someone_else'') (VStr ''https://evil.com/x'') = Inr 20"
    using verify_domain_rule [where url = "VStr ''https://evil.com/x''", OF init other [symmetric] none [symmetric]]
    by simp
  have e: "verify_domain simple_urlparse tim_validator (VStr ''tim_ferriss'') (VStr []) = Inr 0"
    using verify_domain_rule [where url = "VStr []", OF init tim [symmetric] doms [symmetric]]
    by simp
  from init a b c d e show ?thesis by simp
qed

lemma blog_loop_eq:
  assumes "\<forall>b\<in>set bs. \<exists>r. up (blog_url b) = Inr r"
  shows "blog_loop up bs name domain =
           Inr (if \<exists>b\<in>set bs. name_eq (blog_name b) name
                      \<or> map_sum id VStr (netloc_of up (blog_url b)) = Inr domain
                then 40 else 15)"
  using assms
proof (induction bs)
  case Nil
  then show ?case by simp
next
  case (Cons b bs)
  then obtain r where r: "up (blog_url b) = Inr r" by auto
  obtain sch nl where "r = (sch, nl)" by (cases r)
  with r Cons show ?case by (auto simp: netloc_of_def)
qed

text \<open>
  C6, as stated, fails: a platform value outside the five named ones does not always
  score 20. The empty platform (also what a record without a platform gets) scores 0.
\<close>

theorem verify_platform_empty_counterexample:
  "\<not> (\<forall>platform. platform \<notin> {VStr ''twitter'', VStr ''youtube'', VStr ''blog'', VStr ''podcast'', VStr ''book''}
         \<longrightarrow> verify_platform simple_urlparse tim_validator (VStr ''tim_ferriss'') platform (VDict []) = Inr 20)"
proof
  assume "\<forall>platform. platform \<notin> {VStr ''twitter'', VStr ''youtube'', VStr ''blog'', VStr ''podcast'', VStr ''book''}
         \<longrightarrow> verify_platform simple_urlparse tim_validator (VStr ''tim_ferriss'') platform (VDict []) = Inr 20"
  then have "verify_platform simple_urlparse tim_validator (VStr ''tim_ferriss'') (VStr []) (VDict []) = Inr 20"
    by simp
  then show False by (simp add: verify_platform_def)
qed

text \<open>
  C6, amended. For an author \<open>a\<close> with configuration \<open>config\<close> (the empty one when the
  author is unknown) whose blog urls parse, and a metadata dictionary \<open>m\<close>, the platform
  sub-score is: 0 for a missing or empty platform; 40 for twitter; for youtube 40 when a
  configured channel has the metadata's channel name, 30 when no channel is configured,
  else 15; for blog 40 when a configured blog has the metadata's blog name or its url's
  domain is the metadata's domain, else 15; for podcast 40 on a name match, else 25; for
  book 40 on a title match, else 10; and 20 for every other non-empty platform.
\<close>

theorem verify_platform_dispatch:
  assumes "\<forall>b\<in>set (blogs config). \<exists>r. up (blog_url b) = Inr r"
    and "config = (case map_of (authors_config v) a of None \<Rightarrow> no_config | Some c \<Rightarrow> c)"
  shows "verify_platform up v (VStr a) platform (VDict m) =
     Inr (if \<not> truthy platform then 0
          else if platform = VStr ''twitter'' then 40
          else if platform = VStr ''youtube'' then
            (if \<exists>n\<in>set (youtube_channels config). name_eq n (dict_get m ''channel_name'' (VStr [])) then 40
             else if youtube_channels config = [] then 30 else 15)
          else if platform = VStr ''blog'' then
            (if \<exists>b\<in>set (blogs config).
                  name_eq (blog_name b) (dict_get m ''blog_name'' (VStr []))
                  \<or> map_sum id VStr (netloc_of up (blog_url b)) = Inr (dict_get m ''domain'' (VStr []))
             then 40 else 15)
          else if platform = VStr ''podcast'' then
            (if \<exists>n\<in>set (podcasts config). name_eq n (dict_get m ''podcast_name'' (VStr [])) then 40 else 25)
          else if platform = VStr ''book'' then
            (if \<exists>n\<in>set (books config). name_eq n (dict_get m ''book_title'' (VStr [])) then 40 else 10)
          else 20)"
  using blog_loop_eq [OF assms(1)] assms(2)
  by (simp add: verify_platform_def verify_twitter_def verify_youtube_def verify_blog_def
        verify_podcast_def verify_book_def name_loop_iff)

theorem verify_platform_dispatch_witness:
  "verify_platform simple_urlparse tim_validator (VStr ''tim_ferriss'') (VStr ''twitter'') (VDict []) = Inr 40
   \<and> verify_platform simple_urlparse tim_validator (VStr ''tim_ferriss'') (VStr ''youtube'')
        (VDict [(''channel_name'', VStr ''Tim Ferriss'')]) = Inr 40
   \<and> verify_platform simple_urlparse tim_validator (VStr ''tim_ferriss'') (VStr ''youtube'')
        (VDict [(''channel_name'', VStr ''Somebody'')]) = Inr 15
   \<and> verify_platform simple_urlparse tim_validator (VStr ''someone_else'') (VStr ''youtube'')
        (VDict [(''channel_name'', VStr ''Somebody'')]) = Inr 30
   \<and> verify_platform simple_urlparse tim_validator (VStr ''tim_ferriss'') (VStr ''blog'')
        (VDict [(''domain'', VStr ''tim.blog'')]) = Inr 40
   \<and> verify_platform simple_urlparse tim_validator (VStr ''tim_ferriss'') (VStr ''blog'')
        (VDict [(''blog_name'', VStr ''Other'')]) = Inr 15
   \<and> verify_platform simple_urlparse tim_validator (VStr ''tim_ferriss'') (VStr ''podcast'') (VDict []) = Inr 25
   \<and> verify_platform simple_urlparse tim_validator (VStr ''tim_ferriss'') (VStr ''book'')
        (VDict [(''book_title'', VStr ''Unknown Book'')]) = Inr 10
   \<and> verify_platform simple_urlparse tim_validator (VStr ''tim_ferriss'') (VStr ''newsletter'') (VDict []) = Inr 20
   \<and> verify_platform simple_urlparse tim_validator (VStr ''tim_ferriss'') (VStr []) (VDict []) = Inr 0"
proof -
  have tim: "\<forall>b\<in>set (blogs (snd (hd tim_config))). \<exists>r. simple_urlparse (blog_url b) = Inr r"
    by (simp add: tim_config_def urlparse_simps)
  have tim_cfg: "snd (hd tim_config) =
      (case map_of (authors_config tim_validator) ''tim_ferriss'' of None \<Rightarrow> no_config | Some c \<Rightarrow> c)"
    by (simp add: tim_config_def tim_validator_def)
  have other: "\<forall>b\<in>set (blogs no_config). \<exists>r. simple_urlparse (blog_url b) = Inr r"
    by (simp add: no_config_def)
  have other_cfg: "no_config =
      (case map_of (authors_config tim_validator) ''someone_else'' of None \<Rightarrow> no_config | Some c \<Rightarrow> c)"
    by (simp add: tim_config_def tim_validator_def)
  note rule = verify_platform_dispatch [OF tim tim_cfg]
  show ?thesis
    by (simp add: rule verify_platform_dispatch [OF other other_cfg]
          tim_config_def no_config_def dict_get_def urlparse_simps)
qed

text \<open>
  C7, as stated, fails: a metadata dictionary whose \<open>word_count\<close> key is present with
  the value 0 earns nothing for it; its score is 0.
\<close>

theorem verify_metadata_zero_word_count_counterexample:
  "dict_has [(''word_count'', VInt 0)] ''word_count''
   \<and> verify_metadata tim_validator (VStr ''tim_ferriss'') (VDict [(''word_count'', VInt 0)]) = Inr 0"
  by (simp add: verify_metadata_def dict_has_def dict_get_def dict_len_def tim_validator_def)

text \<open>
  C7, amended. For a metadata dictionary whose \<open>word_count\<close> is an integer \<open>n\<close> (or
  absent, read as 0), the metadata sub-score is the sum of four +5 checks: \<open>n > 50\<close>;
  \<open>metrics\<close> present and non-empty; \<open>word_count\<close> present and not 0; more than two
  keys. It is one of 0, 5, 10, 15, 20.
\<close>

theorem verify_metadata_sum:
  assumes "dict_get m ''word_count'' (VInt 0) = VInt n"
  shows "verify_metadata v (VStr a) (VDict m) =
           Inr ((if n > 50 then 5 else 0)
                + (if truthy (dict_get m ''metrics'' VNone) then 5 else 0)
                + (if dict_has m ''word_count'' \<and> n \<noteq> 0 then 5 else 0)
                + (if dict_len m > 2 then 5 else 0))
         \<and> (\<exists>s \<in> {0, 5, 10, 15, 20}. verify_metadata v (VStr a) (VDict m) = Inr s)"
  using assms
  by (auto simp: verify_metadata_def dict_get_def dict_has_def Let_def split: option.splits)

theorem verify_metadata_sum_witness:
  "dict_get example_metadata ''word_count'' (VInt 0) = VInt 500
   \<and> verify_metadata tim_validator (VStr ''tim_ferriss'') (VDict example_metadata) = Inr 15
   \<and> verify_metadata tim_validator (VStr ''tim_ferriss'')
        (VDict [(''word_count'', VInt 51), (''metrics'', VDict [(''likes'', VInt 3)]), (''lang'', VStr ''en'')]) = Inr 20
   \<and> verify_metadata tim_validator (VStr ''tim_ferriss'') (VDict [(''word_count'', VInt 0)]) = Inr 0"
proof -
  have a: "dict_get example_metadata ''word_count'' (VInt 0) = VInt 500"
    by (simp add: dict_get_def example_metadata_def)
  have b: "dict_get [(''word_count'', VInt 51), (''metrics'', VDict [(''likes'', VInt 3)]), (''lang'', VStr ''en'')]
             ''word_count'' (VInt 0) = VInt 51"
    by (simp add: dict_get_def)
  have c: "dict_get [(''word_count'', VInt 0)] ''word_count'' (VInt 0) = VInt 0"
    by (simp add: dict_get_def)
  show ?thesis
    using a verify_metadata_sum [OF a, of tim_validator "''tim_ferriss''"]
          verify_metadata_sum [OF b, of tim_validator "''tim_ferriss''"]
          verify_metadata_sum [OF c, of tim_validator "''tim_ferriss''"]
    by (simp add: dict_get_def dict_has_def dict_len_def example_metadata_def)
qed

text \<open>
  C3, as stated, fails: in the full example the \<open>metrics\<close> entry is the empty
  dictionary, which earns nothing, so the metadata sub-score is not 20 and the total is
  not 100.
\<close>

theorem worked_example_counterexample:
  "\<not> (verify_metadata tim_validator (VStr ''tim_ferriss'') (VDict example_metadata) = Inr 20
      \<and> calculate_authenticity_score simple_urlparse tim_validator (VStr ''tim_ferriss'')
           (VStr ''blog'') (VStr ''https://tim.blog/x'') (VDict example_metadata) = Inr 100)"
  by (simp add: verify_metadata_def example_metadata_def dict_get_def dict_len_def tim_validator_def)

text \<open>
  C3, amended. For the example record and any profile whose domains include
  \<open>tim.blog\<close> and whose blogs include one named "Tim's Blog" (the configured blog urls
  parse, and the record's url has the netloc \<open>tim.blog\<close>): domain 40, platform 40,
  metadata 15, total 95; \<open>validate\<close> writes the score 95 and the verdict
  \<open>95 \<ge> MIN_AUTHENTICITY_SCORE\<close>, true at the default 75.
\<close>

theorem worked_example_scores:
  assumes author: "a \<noteq> []"
    and doms: "map_of (domain_whitelist v) a = Some doms" "''tim.blog'' \<in> set doms"
    and config: "map_of (authors_config v) a = Some config"
      "\<exists>b\<in>set (blogs config). blog_name b = Some ''Tim's Blog''"
      "\<forall>b\<in>set (blogs config). \<exists>r. up (blog_url b) = Inr r"
    and url: "up ''https://tim.blog/x'' = Inr (sch, ''tim.blog'')"
  shows "verify_domain up v (VStr a) (VStr ''https://tim.blog/x'') = Inr 40
    \<and> verify_platform up v (VStr a) (VStr ''blog'') (VDict example_metadata) = Inr 40
    \<and> verify_metadata v (VStr a) (VDict example_metadata) = Inr 15
    \<and> calculate_authenticity_score up v (VStr a) (VStr ''blog'') (VStr ''https://tim.blog/x'')
         (VDict example_metadata) = Inr 95
    \<and> validate up cfg v (example_record a) =
         Inr [(''author'', VStr a), (''platform'', VStr ''blog''),
              (''url'', VStr ''https://tim.blog/x''),
              (''metadata'', VDict (example_metadata @
                 [(''validation'', VDict [(''authenticity_score'', VInt 95),
                                          (''passed'', VBool (MIN_AUTHENTICITY_SCORE cfg \<le> 95))])])),
              (''authenticity_score'', VInt 95)]"
proof -
  have d: "verify_domain up v (VStr a) (VStr ''https://tim.blog/x'') = Inr 40"
    using doms url by (auto simp: verify_domain_def netloc_of_def)
  have p: "verify_platform up v (VStr a) (VStr ''blog'') (VDict example_metadata) = Inr 40"
  proof -
    from config(2) obtain b where "b \<in> set (blogs config)" "name_eq (blog_name b) (VStr ''Tim's Blog'')"
      by auto
    then have "\<exists>b\<in>set (blogs config). name_eq (blog_name b) (VStr ''Tim's Blog'')
        \<or> map_sum id VStr (netloc_of up (blog_url b)) = Inr (VStr [])"
      by blast
    then show ?thesis
      using config(1) blog_loop_eq [OF config(3), of "VStr ''Tim's Blog''" "VStr []"]
      by (simp add: verify_platform_def verify_blog_def example_metadata_def dict_get_def)
  qed
  have m: "verify_metadata v (VStr a) (VDict example_metadata) = Inr 15"
    by (simp add: verify_metadata_def example_metadata_def dict_get_def dict_len_def)
  have c: "calculate_authenticity_score up v (VStr a) (VStr ''blog'') (VStr ''https://tim.blog/x'')
         (VDict example_metadata) = Inr 95"
    by (simp add: calculate_authenticity_score_def d p m)
  have "validate up cfg v (example_record a) =
         Inr [(''author'', VStr a), (''platform'', VStr ''blog''),
              (''url'', VStr ''https://tim.blog/x''),
              (''metadata'', VDict (example_metadata @
                 [(''validation'', VDict [(''authenticity_score'', VInt 95),
                                          (''passed'', VBool (MIN_AUTHENTICITY_SCORE cfg \<le> 95))])])),
              (''authenticity_score'', VInt 95)]"
    using author c
    by (simp add: validate_def example_record_def example_metadata_def dict_get_def
          dict_set_def dict_has_def)
  with d p m c show ?thesis by simp
qed

theorem worked_example_scores_witness:
  "init_validator simple_urlparse tim_config = Inr tim_validator
   \<and> validate simple_urlparse default_settings tim_validator (example_record ''tim_ferriss'') =
         Inr [(''author'', VStr ''tim_ferriss''), (''platform'', VStr ''blog''),
              (''url'', VStr ''https://tim.blog/x''),
              (''metadata'', VDict (example_metadata @
                 [(''validation'', VDict [(''authenticity_score'', VInt 95),
                                          (''passed'', VBool True)])])),
              (''authenticity_score'', VInt 95)]"
  using worked_example_scores [of "''tim_ferriss''" tim_validator "[''tim.blog'']"
     "snd (hd tim_config)" simple_urlparse "''https''" default_settings]
     init_tim_validator
  by (simp add: tim_validator_def tim_config_def urlparse_simps default_settings_def)





lemma validate_batch_loop_eq:
  "validate_batch_loop up cfg v contents validated =
     validated @ map (\<lambda>c. case validate up cfg v c of
                             Inr c' \<Rightarrow> c'
                           | Inl (e, c') \<Rightarrow> dict_set c' ''authenticity_score'' (VInt 0)) contents"
  by (induction contents arbitrary: validated) (auto split: sum.splits)

lemma validate_error_record:
  assumes "validate up cfg v c = Inl (e, c')"
  shows "dict_set c' ''authenticity_score'' (VInt 0) = dict_set c ''authenticity_score'' (VInt 0)"
  using assms
  by (auto simp: validate_def Let_def dict_set_def
           split: if_splits sum.splits option.splits pyval.splits)

lemma dict_get_set_same: "dict_get (dict_set d k x) k dflt = x"
  by (simp add: dict_get_def dict_set_def update_conv')

text \<open>
  C9. \<open>validate_batch\<close> returns one record per input record, in the input's order.
  Where \<open>validate\<close> returns, the record is its result; where it raises, the record is
  the input record with \<open>authenticity_score\<close> 0, and the loop goes on: the result at
  each position depends on the record at that position alone.
\<close>

theorem validate_batch_resilient:
  "length (validate_batch up cfg v contents) = length contents
   \<and> (\<forall>i < length contents.
        case validate up cfg v (contents ! i) of
          Inr c' \<Rightarrow> validate_batch up cfg v contents ! i = c'
        | Inl (e, c') \<Rightarrow>
            validate_batch up cfg v contents ! i
              = dict_set (contents ! i) ''authenticity_score'' (VInt 0)
            \<and> dict_get (validate_batch up cfg v contents ! i) ''authenticity_score'' VNone = VInt 0)"
proof (intro conjI allI impI)
  show "length (validate_batch up cfg v contents) = length contents"
    by (simp add: validate_batch_def validate_batch_loop_eq)
next
  fix i assume i: "i < length contents"
  show "case validate up cfg v (contents ! i) of
          Inr c' \<Rightarrow> validate_batch up cfg v contents ! i = c'
        | Inl (e, c') \<Rightarrow>
            validate_batch up cfg v contents ! i
              = dict_set (contents ! i) ''authenticity_score'' (VInt 0)
            \<and> dict_get (validate_batch up cfg v contents ! i) ''authenticity_score'' VNone = VInt 0"
  proof (cases "validate up cfg v (contents ! i)")
    case (Inl a)
    obtain e c' where a: "a = (e, c')" by (cases a)
    from Inl a i validate_error_record [of up cfg v "contents ! i" e c'] show ?thesis
      by (simp add: validate_batch_def validate_batch_loop_eq dict_get_set_same)
  next
    case (Inr b)
    with i show ?thesis
      by (simp add: validate_batch_def validate_batch_loop_eq)
  qed
qed

lemma validate_bad_record:
  "validate simple_urlparse default_settings tim_validator bad_record = Inl (TypeError, bad_record)"
  by (simp add: validate_def bad_record_def calculate_authenticity_score_def verify_domain_def
        verify_platform_def verify_twitter_def verify_metadata_def tim_validator_def tim_config_def
        dict_get_def urlparse_simps)

lemma validate_example_record:
  "validate simple_urlparse default_settings tim_validator (example_record ''tim_ferriss'') =
     Inr [(''author'', VStr ''tim_ferriss''), (''platform'', VStr ''blog''),
          (''url'', VStr ''https://tim.blog/x''),
          (''metadata'', VDict (example_metadata @
             [(''validation'', VDict [(''authenticity_score'', VInt 95), (''passed'', VBool True)])])),
          (''authenticity_score'', VInt 95)]"
  by (simp add: validate_def example_record_def example_metadata_def
        calculate_authenticity_score_def verify_domain_def verify_platform_def verify_blog_def
        verify_metadata_def tim_validator_def tim_config_def default_settings_def
        dict_get_def dict_set_def dict_has_def dict_len_def urlparse_simps)

theorem validate_batch_resilient_witness:
  "length (validate_batch simple_urlparse default_settings tim_validator
        [example_record ''tim_ferriss'', bad_record, example_record ''tim_ferriss'']) = 3
   \<and> validate simple_urlparse default_settings tim_validator bad_record = Inl (TypeError, bad_record)
   \<and> validate_batch simple_urlparse default_settings tim_validator
        [example_record ''tim_ferriss'', bad_record, example_record ''tim_ferriss''] ! 1
       = bad_record @ [(''authenticity_score'', VInt 0)]
   \<and> dict_get (validate_batch simple_urlparse default_settings tim_validator
        [example_record ''tim_ferriss'', bad_record, example_record ''tim_ferriss''] ! 2)
         ''authenticity_score'' VNone = VInt 95"
proof -
  let ?batch = "[example_record ''tim_ferriss'', bad_record, example_record ''tim_ferriss'']"
  note inst = validate_batch_resilient [of simple_urlparse default_settings tim_validator ?batch]
  from inst have len: "length (validate_batch simple_urlparse default_settings tim_validator ?batch) = 3"
    by simp
  from inst have each: "\<forall>i < length ?batch.
        case validate simple_urlparse default_settings tim_validator (?batch ! i) of
          Inr c' \<Rightarrow> validate_batch simple_urlparse default_settings tim_validator ?batch ! i = c'
        | Inl (e, c') \<Rightarrow>
            validate_batch simple_urlparse default_settings tim_validator ?batch ! i
              = dict_set (?batch ! i) ''authenticity_score'' (VInt 0)
            \<and> dict_get (validate_batch simple_urlparse default_settings tim_validator ?batch ! i)
                 ''authenticity_score'' VNone = VInt 0"
    by blast
  from each [rule_format, of 1] validate_bad_record
  have one: "validate_batch simple_urlparse default_settings tim_validator ?batch ! 1
       = bad_record @ [(''authenticity_score'', VInt 0)]"
    by (simp add: dict_set_def bad_record_def)
  from each [rule_format, of 2] validate_example_record
  have two: "dict_get (validate_batch simple_urlparse default_settings tim_validator ?batch ! 2)
         ''authenticity_score'' VNone = VInt 95"
    by (simp add: dict_get_def example_metadata_def)
  from len one two validate_bad_record show ?thesis by simp
qed

lemma dict_get_set_other: "k \<noteq> k' \<Longrightarrow> dict_get (dict_set d k x) k' dflt = dict_get d k' dflt"
  by (simp add: dict_get_def dict_set_def update_conv')

lemma map_of_dict_set: "map_of (dict_set d k x) = (map_of d)(k \<mapsto> x)"
  by (simp add: dict_set_def update_conv')

lemma dict_has_set: "dict_has (dict_set d k x) k' = (k' = k \<or> dict_has d k')"
  by (simp add: dict_has_def map_of_dict_set)

lemma dict_set_same: "map_of d k = Some x \<Longrightarrow> dict_set d k x = d"
  by (simp add: dict_set_def update_triv)

lemma dict_set_twice: "dict_set (dict_set d k x) k y = dict_set d k y"
  by (simp add: dict_set_def)

lemma dict_has_keys: "dict_has d k = (k \<in> set (map fst d))"
  by (simp add: dict_has_def map_of_eq_None_iff)

lemma dict_len_set:
  "dict_len (dict_set d k x) = (if dict_has d k then dict_len d else Suc (dict_len d))"
proof -
  have "length (remdups (xs @ [k])) = Suc (length (remdups xs))" if "k \<notin> set xs" for xs :: "string list"
    using that by (induction xs) auto
  then show ?thesis
    by (auto simp: dict_len_def dict_set_def update_keys dict_has_keys)
qed

lemma verify_platform_cong:
  assumes "\<And>k d. k \<noteq> ''validation'' \<Longrightarrow> dict_get m' k d = dict_get m k d"
  shows "verify_platform up v a p (VDict m') = verify_platform up v a p (VDict m)"
  by (auto simp: verify_platform_def verify_twitter_def verify_youtube_def verify_blog_def
        verify_podcast_def verify_book_def assms split: sum.splits)

lemma verify_metadata_cong:
  assumes "\<And>k d. k \<noteq> ''validation'' \<Longrightarrow> dict_get m' k d = dict_get m k d"
    and "(dict_len m' > 2) = (dict_len m > 2)"
  shows "verify_metadata v a (VDict m') = verify_metadata v a (VDict m)"
  by (auto simp: verify_metadata_def assms Let_def split: sum.splits)


lemma calculate_cong:
  assumes "\<And>k d. k \<noteq> ''validation'' \<Longrightarrow> dict_get m' k d = dict_get m k d"
    and "(dict_len m' > 2) = (dict_len m > 2)"
  shows "calculate_authenticity_score up v a p u (VDict m')
           = calculate_authenticity_score up v a p u (VDict m)"
proof -
  have p: "verify_platform up v a p (VDict m') = verify_platform up v a p (VDict m)"
    using assms(1) by (rule verify_platform_cong)
  have m: "verify_metadata v a (VDict m') = verify_metadata v a (VDict m)"
    using assms by (rule verify_metadata_cong)
  show ?thesis
    unfolding calculate_authenticity_score_def p m ..
qed

text \<open>
  C4, amended. Scoring is a function of the record and the profile, so the same inputs
  give the same score and verdict. \<open>validate\<close> writes a \<open>validation\<close> entry into the
  record's metadata, which makes the returned record a different input: validating it
  again returns it unchanged (same score, same verdict) whenever the metadata already
  had a \<open>validation\<close> entry or did not have exactly two entries.
\<close>

theorem revalidate_same:
  assumes v1: "validate up cfg v c = Inr c1"
    and md: "dict_get c ''metadata'' (VDict []) = VDict m"
    and cond: "dict_has m ''validation'' \<or> dict_len m \<noteq> 2"
  shows "validate up cfg v c1 = Inr c1"
proof (cases "truthy (dict_get c ''author'' VNone)")
  case False
  with v1 have c1: "c1 = dict_set c ''authenticity_score'' (VInt 0)"
    by (simp add: validate_def)
  with False have "\<not> truthy (dict_get c1 ''author'' VNone)"
    by (simp add: dict_get_set_other)
  then show ?thesis
    by (simp add: validate_def c1 dict_set_twice)
next
  case True
  define platform where "platform = dict_get c ''platform'' (VStr [])"
  define url where "url = dict_get c ''url'' (VStr [])"
  define author where "author = dict_get c ''author'' VNone"
  define m1 where "m1 = (if \<not> dict_has m ''validation'' then dict_set m ''validation'' (VDict []) else m)"
  from v1 True md obtain score where
    calc: "calculate_authenticity_score up v author platform url (VDict m) = Inr score"
    by (auto simp: validate_def Let_def author_def platform_def url_def split: sum.splits)
  define content1 where "content1 = dict_set c ''authenticity_score'' (VInt score)"
  define passed where "passed = VBool (score \<ge> MIN_AUTHENTICITY_SCORE cfg)"
  have mget: "map_of content1 ''metadata'' = map_of c ''metadata''"
    by (simp add: content1_def map_of_dict_set)
  from v1 True md calc have some: "map_of c ''metadata'' = Some (VDict m)"
    by (auto simp: validate_def Let_def author_def platform_def url_def content1_def [symmetric]
          mget dict_get_def split: option.splits pyval.splits)
  from v1 True md calc some obtain val where
    val: "dict_get m1 ''validation'' VNone = VDict val"
    and c1: "c1 = dict_set content1 ''metadata''
               (VDict (dict_set m1 ''validation''
                  (VDict (dict_set (dict_set val ''authenticity_score'' (VInt score)) ''passed'' passed))))"
    by (auto simp: validate_def Let_def author_def platform_def url_def content1_def [symmetric]
          mget m1_def passed_def split: pyval.splits if_splits)
  define val2 where "val2 = dict_set (dict_set val ''authenticity_score'' (VInt score)) ''passed'' passed"
  define m' where "m' = dict_set m1 ''validation'' (VDict val2)"
  have c1': "c1 = dict_set content1 ''metadata'' (VDict m')"
    by (simp add: c1 m'_def val2_def)
  have same: "dict_get m' k d = dict_get m k d" if "k \<noteq> ''validation''" for k d
    using that by (auto simp: m'_def m1_def dict_get_set_other)
  have len: "(dict_len m' > 2) = (dict_len m > 2)"
    using cond by (auto simp: m'_def m1_def dict_len_set dict_has_set)
  have a2: "dict_get c1 ''author'' VNone = author"
    and p2: "dict_get c1 ''platform'' (VStr []) = platform"
    and u2: "dict_get c1 ''url'' (VStr []) = url"
    and m2: "dict_get c1 ''metadata'' (VDict []) = VDict m'"
    by (simp_all add: c1' content1_def dict_get_set_other dict_get_set_same
          author_def platform_def url_def)
  have calc2: "calculate_authenticity_score up v author platform url (VDict m') = Inr score"
    using calculate_cong [of m' m, OF same len] calc by simp
  have s2: "dict_set c1 ''authenticity_score'' (VInt score) = c1"
    by (rule dict_set_same) (simp add: c1' content1_def map_of_dict_set)
  have g2: "map_of c1 ''metadata'' = Some (VDict m')"
    by (simp add: c1' map_of_dict_set)
  have h2: "dict_has m' ''validation''"
    by (simp add: m'_def dict_has_set)
  have v2: "dict_get m' ''validation'' VNone = VDict val2"
    by (simp add: m'_def dict_get_set_same)
  have val_a: "dict_set val2 ''authenticity_score'' (VInt score) = val2"
    by (rule dict_set_same) (simp add: val2_def map_of_dict_set)
  have val_p: "dict_set val2 ''passed'' passed = val2"
    by (simp add: val2_def dict_set_twice)
  have m_back: "dict_set m' ''validation'' (VDict val2) = m'"
    by (simp add: m'_def dict_set_twice)
  have c_back: "dict_set c1 ''metadata'' (VDict m') = c1"
    by (simp add: c1' dict_set_twice)
  from True have ta: "truthy author"
    by (simp add: author_def)
  show ?thesis
    by (simp add: validate_def a2 p2 u2 m2 ta calc2 s2 g2 h2 v2 val_a val_p [unfolded passed_def]
          m_back c_back)
qed


lemmas validate_simps =
  validate_def calculate_authenticity_score_def verify_domain_def verify_platform_def
  verify_twitter_def verify_blog_def verify_metadata_def tim_validator_def tim_config_def
  default_settings_def dict_get_def dict_set_def dict_has_def dict_len_def

text \<open>
  C4, as stated, fails: a record whose metadata has exactly two entries scores 70 (not
  passed); the record \<open>validate\<close> returns has a third metadata entry, and validating
  it again scores 75 (passed).
\<close>

theorem revalidate_counterexample:
  "validate simple_urlparse default_settings tim_validator two_key_record
     = Inr (two_key_validated 70 False)
   \<and> validate simple_urlparse default_settings tim_validator (two_key_validated 70 False)
     = Inr (two_key_validated 75 True)"
  by (simp add: two_key_record_def two_key_validated_def validate_simps urlparse_simps)

theorem revalidate_same_witness:
  "validate simple_urlparse default_settings tim_validator (example_record ''tim_ferriss'') =
     Inr [(''author'', VStr ''tim_ferriss''), (''platform'', VStr ''blog''),
          (''url'', VStr ''https://tim.blog/x''),
          (''metadata'', VDict (example_metadata @
             [(''validation'', VDict [(''authenticity_score'', VInt 95), (''passed'', VBool True)])])),
          (''authenticity_score'', VInt 95)]
   \<and> dict_get (example_record ''tim_ferriss'') ''metadata'' (VDict []) = VDict example_metadata
   \<and> dict_len example_metadata = 3
   \<and> validate simple_urlparse default_settings tim_validator
        [(''author'', VStr ''tim_ferriss''), (''platform'', VStr ''blog''),
          (''url'', VStr ''https://tim.blog/x''),
          (''metadata'', VDict (example_metadata @
             [(''validation'', VDict [(''authenticity_score'', VInt 95), (''passed'', VBool True)])])),
          (''authenticity_score'', VInt 95)]
      = Inr [(''author'', VStr ''tim_ferriss''), (''platform'', VStr ''blog''),
          (''url'', VStr ''https://tim.blog/x''),
          (''metadata'', VDict (example_metadata @
             [(''validation'', VDict [(''authenticity_score'', VInt 95), (''passed'', VBool True)])])),
          (''authenticity_score'', VInt 95)]"
proof -
  have md: "dict_get (example_record ''tim_ferriss'') ''metadata'' (VDict []) = VDict example_metadata"
    by (simp add: example_record_def dict_get_def)
  have len: "dict_len example_metadata = 3"
    by (simp add: example_metadata_def dict_len_def)
  then have cond: "dict_has example_metadata ''validation'' \<or> dict_len example_metadata \<noteq> 2"
    by simp
  from revalidate_same [OF validate_example_record md cond] validate_example_record md len
  show ?thesis by simp
qed

section \<open>Properties of the rate limiter\<close>

lemma limiter_inv_extend:
  assumes split: "recorded = old @ ts" and old: "\<forall>x\<in>set old. x + p \<le> now"
    and len: "length ts < n"
    and srt: "sorted recorded" and bnd: "\<forall>x\<in>set recorded. x \<le> now"
    and sep: "\<forall>i j. i + n \<le> j \<and> j < length recorded \<longrightarrow> recorded ! i + p \<le> recorded ! j"
  shows "limiter_inv n p now (ts @ [now]) (recorded @ [now])"
proof -
  have a: "\<exists>old'. recorded @ [now] = old' @ (ts @ [now]) \<and> (\<forall>x\<in>set old'. x + p \<le> now)"
    using split old by auto
  have b: "sorted (recorded @ [now])"
    using srt bnd by (simp add: sorted_append)
  have c: "\<forall>x\<in>set (recorded @ [now]). x \<le> now"
    using bnd by simp
  have d: "length (ts @ [now]) \<le> n"
    using len by simp
  have e: "(recorded @ [now]) ! i + p \<le> (recorded @ [now]) ! j"
    if ij: "i + n \<le> j" "j < length (recorded @ [now])" for i j
  proof (cases "j < length recorded")
    case True
    with ij have "i < length recorded" by simp
    with True sep ij show ?thesis by (simp add: nth_append)
  next
    case False
    with ij have j: "j = length recorded" by simp
    with ij len split have i: "i < length old" by simp
    then have "recorded ! i \<in> set old"
      using split by (simp add: nth_append)
    with old have "recorded ! i + p \<le> now" by blast
    moreover from i split have "i < length recorded" by simp
    ultimately show ?thesis using j by (simp add: nth_append)
  qed
  from a b c d e show ?thesis
    unfolding limiter_inv_def by blast
qed

lemma evict_split:
  "ts = takeWhile (\<lambda>t. t \<le> now - real_of_int p) ts @ evict now p ts"
  by (simp add: evict_def)

lemma evict_old: "\<forall>x\<in>set (takeWhile (\<lambda>t. t \<le> now - real_of_int p) ts). x + real_of_int p \<le> now"
  by (auto dest: set_takeWhileD)

lemma evict_length: "length (evict now p ts) \<le> length ts"
  by (simp add: evict_def length_dropWhile_le)

lemma evict_hd: "evict now p ts = x # rest \<Longrightarrow> now - real_of_int p < x"
  unfolding evict_def using hd_dropWhile [of "\<lambda>t. t \<le> now - real_of_int p" ts] by force


lemma wait_if_needed_inv:
  assumes inv: "limiter_inv n (real_of_int (period l)) clock (timestamps l) recorded"
    and n: "calls l = int n" "0 < n"
    and env: "0 \<le> lag" "0 \<le> over"
  shows "\<exists>slept now l'. wait_if_needed (lag, over) (clock, l) = Inr (slept, now, l')
           \<and> calls l' = calls l \<and> period l' = period l
           \<and> limiter_inv n (real_of_int (period l)) now (timestamps l') (recorded @ [now])
           \<and> (let before = clock + lag; k = length recorded - n;
                   full = (n \<le> length recorded \<and> before < recorded ! k + real_of_int (period l))
               in slept = (if full then Some (real_of_int (period l) - (before - recorded ! k)) else None)
                \<and> now = (if full then before + (real_of_int (period l) - (before - recorded ! k)) + over
                         else before))"
proof -
  define p where "p = real_of_int (period l)"
  define now0 where "now0 = clock + lag"
  define tw where "tw = takeWhile (\<lambda>t. t \<le> now0 - p) (timestamps l)"
  define ts where "ts = evict now0 (period l) (timestamps l)"
  from inv obtain old where old: "recorded = old @ timestamps l" "\<forall>x\<in>set old. x + p \<le> clock"
    and srt: "sorted recorded" and bnd: "\<forall>x\<in>set recorded. x \<le> clock"
    and len: "length (timestamps l) \<le> n"
    and sep: "\<forall>i j. i + n \<le> j \<and> j < length recorded \<longrightarrow> recorded ! i + p \<le> recorded ! j"
    unfolding limiter_inv_def p_def by blast
  have D: "timestamps l = tw @ ts"
    unfolding tw_def ts_def p_def by (rule evict_split)
  have tw_old: "\<forall>x\<in>set tw. x + p \<le> now0"
    unfolding tw_def p_def by (rule evict_old)
  have split0: "recorded = (old @ tw) @ ts"
    using old(1) D by simp
  have old0: "\<forall>x\<in>set (old @ tw). x + p \<le> now0"
    using old(2) tw_old env(1) by (auto simp: now0_def)
  have bnd0: "\<forall>x\<in>set recorded. x \<le> now0"
    using bnd env(1) by (auto simp: now0_def)
  have len_ts: "length ts \<le> n"
    using len D by simp
  show ?thesis
  proof (cases "length ts < n")
    case True
    have run: "wait_if_needed (lag, over) (clock, l) = Inr (None, now0, l\<lparr>timestamps := ts @ [now0]\<rparr>)"
      using True n by (simp add: wait_if_needed_def Let_def now0_def [symmetric] ts_def [symmetric])
    have inv': "limiter_inv n p now0 (ts @ [now0]) (recorded @ [now0])"
      using split0 old0 True srt bnd0 sep by (rule limiter_inv_extend)
    have notfull: "\<not> (n \<le> length recorded \<and> now0 < recorded ! (length recorded - n) + p)"
    proof
      assume f: "n \<le> length recorded \<and> now0 < recorded ! (length recorded - n) + p"
      with split0 True have k: "length recorded - n < length (old @ tw)" by auto
      with split0 have "recorded ! (length recorded - n) \<in> set (old @ tw)"
        by (metis nth_append nth_mem)
      with old0 have "recorded ! (length recorded - n) + p \<le> now0" by blast
      with f show False by simp
    qed
    from run inv' notfull show ?thesis
      by (simp add: p_def now0_def Let_def)
  next
    case False
    with len_ts n have full: "length ts = n" "ts \<noteq> []" by auto
    then obtain oldest rest where ts: "ts = oldest # rest" by (cases ts) auto
    from ts have hd: "now0 - p < oldest"
      unfolding ts_def p_def by (rule evict_hd)
    define now1 where "now1 = now0 + (p - (now0 - oldest)) + over"
    define tw1 where "tw1 = takeWhile (\<lambda>t. t \<le> now1 - p) ts"
    define ts1 where "ts1 = evict now1 (period l) ts"
    have later: "now0 \<le> now1" "oldest + p \<le> now1"
      using hd env(2) by (simp_all add: now1_def)
    have run: "wait_if_needed (lag, over) (clock, l)
                 = Inr (Some (p - (now0 - oldest)), now1, l\<lparr>timestamps := ts1 @ [now1]\<rparr>)"
    proof -
      have a: "evict (clock + lag) (period l) (timestamps l) = oldest # rest"
        using ts by (simp add: ts_def now0_def)
      have b: "real_of_int (period l) - (clock + lag - oldest) > 0"
        using hd by (simp add: p_def now0_def)
      have c: "calls l \<le> int (length (oldest # rest))"
        using full n ts by simp
      show ?thesis
        using b c
        by (simp add: wait_if_needed_def Let_def a now1_def ts1_def now0_def p_def ts)
    qed
    have D1: "ts = tw1 @ ts1"
      unfolding tw1_def ts1_def p_def by (rule evict_split)
    have tw1_old: "\<forall>x\<in>set tw1. x + p \<le> now1"
      unfolding tw1_def p_def by (rule evict_old)
    have split1: "recorded = (old @ tw @ tw1) @ ts1"
      using split0 D1 by simp
    have old1: "\<forall>x\<in>set (old @ tw @ tw1). x + p \<le> now1"
    proof
      fix x assume "x \<in> set (old @ tw @ tw1)"
      then consider "x \<in> set (old @ tw)" | "x \<in> set tw1" by auto
      then show "x + p \<le> now1"
      proof cases
        case 1
        with old0 have "x + p \<le> now0" by blast
        with later(1) show ?thesis by simp
      next
        case 2
        with tw1_old show ?thesis by blast
      qed
    qed
    have bnd1: "\<forall>x\<in>set recorded. x \<le> now1"
      using bnd0 later(1) by fastforce
    have "ts1 = evict now1 (period l) rest"
      using later(2) by (simp add: ts1_def evict_def ts p_def)
    then have "length ts1 \<le> length rest"
      by (simp add: evict_length)
    with full ts have len1: "length ts1 < n" by simp
    have inv': "limiter_inv n p now1 (ts1 @ [now1]) (recorded @ [now1])"
      using split1 old1 len1 srt bnd1 sep by (rule limiter_inv_extend)
    from split0 full have k: "length recorded - n = length (old @ tw)" "n \<le> length recorded"
      by simp_all
    with split0 ts have oldest: "recorded ! (length recorded - n) = oldest"
      by (simp add: nth_append)
    from hd oldest k have isfull: "n \<le> length recorded \<and> now0 < recorded ! (length recorded - n) + p"
      by simp
    from run inv' isfull oldest show ?thesis
      by (simp add: p_def now0_def now1_def Let_def)
  qed
qed


lemma scheduled_extend:
  assumes "j < length recorded" "length sleeps = length recorded" "length pre = length recorded"
  shows "scheduled clock0 n p (pre @ envs) (recorded @ r) (sleeps @ sl) j
           = scheduled clock0 n p pre recorded sleeps j"
proof -
  from assms have a: "j - 1 < length recorded" "j - n < length recorded" "j < length sleeps"
    "j < length pre" by simp_all
  then have eqs: "(pre @ envs) ! j = pre ! j" "(sleeps @ sl) ! j = sleeps ! j"
    "(recorded @ r) ! j = recorded ! j" "(recorded @ r) ! (j - 1) = recorded ! (j - 1)"
    "(recorded @ r) ! (j - n) = recorded ! (j - n)"
    using assms(1) by (simp_all add: nth_append)
  show ?thesis
    unfolding scheduled_def eqs by (rule refl)
qed

lemma acquire_all_inv:
  assumes "limiter_inv n (real_of_int (period l)) clock (timestamps l) recorded"
    and "calls l = int n" "0 < n"
    and "\<forall>e\<in>set envs. 0 \<le> fst e \<and> 0 \<le> snd e"
    and "length pre = length recorded" "length sleeps = length recorded"
    and "clock = (if recorded = [] then clock0 else last recorded)"
    and "\<forall>j<length recorded. scheduled clock0 n (real_of_int (period l)) pre recorded sleeps j"
  shows "\<exists>now l' recorded' sleeps'.
           acquire_all envs (clock, l) recorded sleeps = Inr ((now, l'), recorded', sleeps')
           \<and> length recorded' = length recorded + length envs
           \<and> length sleeps' = length recorded'
           \<and> calls l' = calls l \<and> period l' = period l
           \<and> limiter_inv n (real_of_int (period l)) now (timestamps l') recorded'
           \<and> (\<forall>j<length recorded'.
                 scheduled clock0 n (real_of_int (period l)) (pre @ envs) recorded' sleeps' j)"
  using assms
proof (induction envs arbitrary: clock l recorded sleeps pre)
  case Nil
  then show ?case by simp
next
  case (Cons env envs)
  obtain lag over where env: "env = (lag, over)" by (cases env)
  with Cons.prems(4) have pos: "0 \<le> lag" "0 \<le> over" by auto
  define p where "p = real_of_int (period l)"
  define k where "k = length recorded - n"
  define full where "full = (n \<le> length recorded \<and> clock + lag < recorded ! k + p)"
  from wait_if_needed_inv [OF Cons.prems(1) Cons.prems(2) Cons.prems(3) pos]
  obtain slept now1 l1 where step: "wait_if_needed (lag, over) (clock, l) = Inr (slept, now1, l1)"
    and same: "calls l1 = calls l" "period l1 = period l"
    and inv1: "limiter_inv n (real_of_int (period l)) now1 (timestamps l1) (recorded @ [now1])"
    and slept: "slept = (if full then Some (p - (clock + lag - recorded ! k)) else None)"
    and now1: "now1 = (if full then clock + lag + (p - (clock + lag - recorded ! k)) + over
                       else clock + lag)"
    unfolding Let_def p_def k_def full_def by blast
  from inv1 same have inv1': "limiter_inv n (real_of_int (period l1)) now1 (timestamps l1) (recorded @ [now1])"
    by simp
  from Cons.prems(2) same have c1: "calls l1 = int n" by simp
  from Cons.prems(4) have rest: "\<forall>e\<in>set envs. 0 \<le> fst e \<and> 0 \<le> snd e" by simp
  have len_pre: "length (pre @ [env]) = length (recorded @ [now1])"
    using Cons.prems(5) by simp
  have len_sl: "length (sleeps @ [slept]) = length (recorded @ [now1])"
    using Cons.prems(6) by simp
  have clk: "now1 = (if recorded @ [now1] = [] then clock0 else last (recorded @ [now1]))"
    by simp
  have hist: "\<forall>j<length (recorded @ [now1]).
                scheduled clock0 n (real_of_int (period l1)) (pre @ [env]) (recorded @ [now1])
                  (sleeps @ [slept]) j"
  proof (intro allI impI)
    fix j assume j: "j < length (recorded @ [now1])"
    show "scheduled clock0 n (real_of_int (period l1)) (pre @ [env]) (recorded @ [now1])
            (sleeps @ [slept]) j"
    proof (cases "j < length recorded")
      case True
      from Cons.prems(8) True have "scheduled clock0 n (real_of_int (period l)) pre recorded sleeps j"
        by blast
      with scheduled_extend [OF True Cons.prems(6) Cons.prems(5)] same show ?thesis by simp
    next
      case False
      with j have je: "j = length recorded" by simp
      have before: "(if j = 0 then clock0 else (recorded @ [now1]) ! (j - 1)) = clock"
      proof (cases "recorded = []")
        case True
        with je Cons.prems(7) show ?thesis by simp
      next
        case ne: False
        with je have "(recorded @ [now1]) ! (j - 1) = last recorded"
          by (simp add: nth_append last_conv_nth)
        with ne je Cons.prems(7) show ?thesis by simp
      qed
      have kth: "(recorded @ [now1]) ! (j - n) = recorded ! k" if nj: "n \<le> j"
      proof -
        from nj je Cons.prems(3) have "j - n < length recorded" by arith
        then show ?thesis by (simp add: nth_append k_def je)
      qed
      have envj: "(pre @ [env]) ! j = (lag, over)"
        using je Cons.prems(5) env by (simp add: nth_append)
      have slj: "(sleeps @ [slept]) ! j = slept"
        using je Cons.prems(6) by (simp add: nth_append)
      have rcj: "(recorded @ [now1]) ! j = now1"
        using je by (simp add: nth_append)
      have fl: "(n \<le> j \<and> clock + lag < (recorded @ [now1]) ! (j - n) + p) = full"
        using kth je by (auto simp: full_def)
      show ?thesis
        unfolding scheduled_def Let_def before envj slj rcj same(2) p_def [symmetric]
        using fl kth slept now1 by (auto simp: full_def)
    qed
  qed
  from Cons.IH [OF inv1' c1 Cons.prems(3) rest len_pre len_sl clk hist]
  obtain now2 l2 rec2 sl2 where
    run: "acquire_all envs (now1, l1) (recorded @ [now1]) (sleeps @ [slept]) = Inr ((now2, l2), rec2, sl2)"
    and facts: "length rec2 = length (recorded @ [now1]) + length envs"
      "length sl2 = length rec2"
      "calls l2 = calls l1" "period l2 = period l1"
      "limiter_inv n (real_of_int (period l1)) now2 (timestamps l2) rec2"
      "\<forall>j<length rec2. scheduled clock0 n (real_of_int (period l1)) ((pre @ [env]) @ envs) rec2 sl2 j"
    by blast
  from run step env have "acquire_all (env # envs) (clock, l) recorded sleeps = Inr ((now2, l2), rec2, sl2)"
    by simp
  with facts same show ?case by simp
qed

lemma window_bound:
  fixes h :: "real list"
  assumes sep: "\<forall>i j. i + n \<le> j \<and> j < length h \<longrightarrow> h ! i + p \<le> h ! j"
  shows "length (filter (\<lambda>a. t - p < a \<and> a \<le> t) h) \<le> n"
proof (rule ccontr)
  assume neg: "\<not> ?thesis"
  define S where "S = {i. i < length h \<and> (t - p < h ! i \<and> h ! i \<le> t)}"
  have fin: "finite S" unfolding S_def by simp
  have card: "n < card S"
    using neg unfolding S_def by (simp add: length_filter_conv_card)
  then have ne: "S \<noteq> {}" by auto
  define a where "a = Min S"
  define b where "b = Max S"
  have a: "a \<in> S" and b: "b \<in> S"
    using fin ne by (simp_all add: a_def b_def)
  have "S \<subseteq> {a..b}"
    using fin by (auto simp: a_def b_def)
  then have "card S \<le> card {a..b}"
    by (rule card_mono [OF finite_atLeastAtMost])
  with card have "a + n \<le> b" by simp
  moreover from b have "b < length h" by (simp add: S_def)
  ultimately have "h ! a + p \<le> h ! b" using sep by blast
  moreover from a have "t - p < h ! a" by (simp add: S_def)
  moreover from b have "h ! b \<le> t" by (simp add: S_def)
  ultimately show False by simp
qed


text \<open>
  C1, as stated, fails in two ways. A limiter constructed with \<open>calls = 0\<close> finds the
  empty deque at its limit on the first call and reads \<open>self.timestamps[0]\<close>, which
  raises \<open>IndexError\<close>: it neither blocks nor records. And a call does not block until the
  invariant holds: it sleeps once, evicts once and appends. With \<open>calls = 1\<close> and
  \<open>period = 60\<close>, a second call at the same instant sleeps 60 seconds; when the clock
  then reads 59 (it was set back a second meanwhile), nothing is evicted, 59 is recorded,
  and the window that ends at 59 holds two timestamps. A clock set back between two
  calls does the same without any sleep: with \<open>calls = 2\<close>, calls at 100, 101 and 161
  and then one at 102 record all four, and the window that ends at 102 holds three.
\<close>

theorem limiter_window_counterexample:
  "acquire_all [(0, 0)] (0, new_limiter 0 60) [] [] = Inl IndexError
   \<and> acquire_all [(0, 0), (0, - 1)] (0, new_limiter 1 60) [] []
       = Inr ((59, \<lparr>calls = 1, period = 60, timestamps = [0, 59]\<rparr>), [0, 59], [None, Some 60])
   \<and> in_window 60 59 [0, 59] = 2
   \<and> acquire_all [(0, 0), (1, 0), (60, 0), (- 59, 0)] (100, new_limiter 2 60) [] []
       = Inr ((102, \<lparr>calls = 2, period = 60, timestamps = [161, 102]\<rparr>),
              [100, 101, 161, 102], [None, None, None, None])
   \<and> in_window 60 102 [100, 101, 161, 102] = 3"
  by (simp add: wait_if_needed_def new_limiter_def evict_def in_window_def)

text \<open>
  C1, amended. For a limiter constructed with \<open>calls = c \<ge> 1\<close> and \<open>period = p\<close>, on
  a clock that never runs backwards and with sleeps that are not seen to end early (the
  lags and oversleeps are not negative), every sequence of calls returns, each call
  recording one timestamp; the deque never holds more than \<open>c\<close> timestamps; no
  trailing window of length \<open>p\<close>, at any instant \<open>t\<close>, holds more than \<open>c\<close> of the
  recorded timestamps; timestamps \<open>c\<close> places apart are at least \<open>p\<close> apart; and call
  \<open>j\<close>, reading the clock at \<open>before\<close>, does this: when the \<open>c\<close> latest timestamps are
  all newer than \<open>before - p\<close>, it sleeps \<open>p - (before - oldest)\<close>, where \<open>oldest\<close> is
  the oldest of them, and records the reading after the sleep; otherwise it does not
  sleep and records \<open>before\<close>.
\<close>

theorem limiter_sliding_window:
  assumes "1 \<le> c" and "\<forall>e\<in>set envs. 0 \<le> fst e \<and> 0 \<le> snd e"
  shows "\<exists>now l recorded sleeps.
           acquire_all envs (clock, new_limiter c p) [] [] = Inr ((now, l), recorded, sleeps)
           \<and> length recorded = length envs \<and> length sleeps = length envs
           \<and> (\<exists>old. recorded = old @ timestamps l)
           \<and> int (length (timestamps l)) \<le> c
           \<and> (\<forall>t. int (in_window p t recorded) \<le> c)
           \<and> (\<forall>i j. int i + c \<le> int j \<and> j < length recorded
                  \<longrightarrow> recorded ! i + real_of_int p \<le> recorded ! j)
           \<and> (\<forall>j<length envs.
                 let before = (if j = 0 then clock else recorded ! (j - 1)) + fst (envs ! j);
                     oldest = recorded ! (j - nat c);
                     full = (nat c \<le> j \<and> before < oldest + real_of_int p)
                 in sleeps ! j = (if full then Some (real_of_int p - (before - oldest)) else None)
                  \<and> recorded ! j = (if full then before + (real_of_int p - (before - oldest)) + snd (envs ! j)
                                    else before))"
proof -
  define n where "n = nat c"
  from assms(1) have n: "calls (new_limiter c p) = int n" "0 < n"
    by (simp_all add: n_def new_limiter_def)
  have init: "limiter_inv n (real_of_int (period (new_limiter c p))) clock
                (timestamps (new_limiter c p)) []"
    by (simp add: limiter_inv_def new_limiter_def)
  have e1: "length ([] :: (real \<times> real) list) = length ([] :: real list)" by simp
  have e2: "length ([] :: real option list) = length ([] :: real list)" by simp
  have e3: "clock = (if ([] :: real list) = [] then clock else last [])" by simp
  have e4: "\<forall>j<length ([] :: real list).
              scheduled clock n (real_of_int (period (new_limiter c p))) [] [] [] j" by simp
  from acquire_all_inv [OF init n assms(2) e1 e2 e3 e4]
  obtain now l recorded sleeps where
    run: "acquire_all envs (clock, new_limiter c p) [] [] = Inr ((now, l), recorded, sleeps)"
    and len: "length recorded = length envs" "length sleeps = length envs"
    and inv: "limiter_inv n (real_of_int p) now (timestamps l) recorded"
    and sch: "\<forall>j<length recorded. scheduled clock n (real_of_int p) envs recorded sleeps j"
    by (auto simp: new_limiter_def)
  from inv have old: "\<exists>old. recorded = old @ timestamps l"
    and deque: "length (timestamps l) \<le> n"
    and sep: "\<forall>i j. i + n \<le> j \<and> j < length recorded
                \<longrightarrow> recorded ! i + real_of_int p \<le> recorded ! j"
    unfolding limiter_inv_def by blast+
  from assms(1) have cn: "c = int n" by (simp add: n_def)
  have win: "\<forall>t. int (in_window p t recorded) \<le> c"
    using window_bound [OF sep] by (simp add: in_window_def cn)
  have sep': "\<forall>i j. int i + c \<le> int j \<and> j < length recorded
                  \<longrightarrow> recorded ! i + real_of_int p \<le> recorded ! j"
    using sep by (simp add: cn)
  from deque have deque': "int (length (timestamps l)) \<le> c" by (simp add: cn)
  have sch': "\<forall>j<length envs.
                 let before = (if j = 0 then clock else recorded ! (j - 1)) + fst (envs ! j);
                     oldest = recorded ! (j - nat c);
                     full = (nat c \<le> j \<and> before < oldest + real_of_int p)
                 in sleeps ! j = (if full then Some (real_of_int p - (before - oldest)) else None)
                  \<and> recorded ! j = (if full then before + (real_of_int p - (before - oldest)) + snd (envs ! j)
                                    else before)"
    using sch len unfolding scheduled_def Let_def n_def by simp
  from run len old deque' win sep' sch' show ?thesis by blast
qed

theorem limiter_sliding_window_witness:
  "(1::int) \<le> 2
   \<and> acquire_all [(0, 0), (1, 0), (1, 2), (200, 0)] (100, new_limiter 2 60) [] []
       = Inr ((362, \<lparr>calls = 2, period = 60, timestamps = [362]\<rparr>),
              [100, 101, 162, 362], [None, None, Some 58, None])
   \<and> in_window 60 101 [100, 101, 162, 362] = 2
   \<and> in_window 60 162 [100, 101, 162, 362] = 1
   \<and> (\<forall>t. int (in_window 60 t [100, 101, 162, 362]) \<le> 2)"
proof -
  have run: "acquire_all [(0, 0), (1, 0), (1, 2), (200, 0)] (100, new_limiter 2 60) [] []
       = Inr ((362, \<lparr>calls = 2, period = 60, timestamps = [362]\<rparr>),
              [100, 101, 162, 362], [None, None, Some 58, None])"
    by (simp add: wait_if_needed_def new_limiter_def evict_def)
  have env: "\<forall>e\<in>set [(0::real, 0::real), (1, 0), (1, 2), (200, 0)]. 0 \<le> fst e \<and> 0 \<le> snd e"
    by simp
  have one: "(1::int) \<le> 2" by simp
  from limiter_sliding_window [OF one env, of 100 60] run
  have "\<forall>t. int (in_window 60 t [100, 101, 162, 362]) \<le> 2"
    by auto
  moreover have "in_window 60 101 [100, 101, 162, 362] = 2" "in_window 60 162 [100, 101, 162, 362] = 1"
    by (simp_all add: in_window_def)
  ultimately show ?thesis using run by simp
qed

section \<open>Properties of the fetch gateway\<close>

lemmas fetch_simps =
  fetch_url_def fetch_attempt_def can_fetch_def get_robot_parser_def request_result_def
  raise_for_status_def retry_if_exception_type_def stop_after_attempt_def wait_exponential_def
  wait_if_needed_def evict_def new_scraper_def new_limiter_def default_settings_def
  base_url_def robots_url_def session_request_def create_session_def is_retry_def upper_char_def Let_def

lemma robots_url_inj: "robots_url a = robots_url b \<longleftrightarrow> a = b"
  by (simp add: robots_url_def)

lemma blocked_attempt:
  assumes "up url = Inr (sch, nl)"
    and "(case map_of (robot_parsers s) (base_url sch nl) of
            None \<Rightarrow> robots (robots_url (base_url sch nl)) | Some r \<Rightarrow> r) = Some rp"
    and "\<not> rp url"
  shows "fetch_attempt up robots env url meth s =
           (Inl ValueError,
            case map_of (robot_parsers s) (base_url sch nl) of
              None \<Rightarrow> s\<lparr>robot_parsers := AList.update (base_url sch nl)
                                            (robots (robots_url (base_url sch nl))) (robot_parsers s),
                       robots_reads := robots_reads s @ [robots_url (base_url sch nl)]\<rparr>
            | Some r \<Rightarrow> s)"
  using assms
  by (cases "map_of (robot_parsers s) (base_url sch nl)")
     (simp_all add: fetch_attempt_def can_fetch_def get_robot_parser_def Let_def)

lemma blocked_fetch_url:
  assumes "up url = Inr (sch, nl)"
    and "(case map_of (robot_parsers s) (base_url sch nl) of
            None \<Rightarrow> robots (robots_url (base_url sch nl)) | Some r \<Rightarrow> r) = Some rp"
    and "\<not> rp url"
  shows "fetch_url up robots cfg envs url meth s =
           (Inl ValueError,
            case map_of (robot_parsers s) (base_url sch nl) of
              None \<Rightarrow> s\<lparr>robot_parsers := AList.update (base_url sch nl)
                                            (robots (robots_url (base_url sch nl))) (robot_parsers s),
                       robots_reads := robots_reads s @ [robots_url (base_url sch nl)]\<rparr>
            | Some r \<Rightarrow> s)"
proof -
  from assms have "fetch_attempt up robots (envs 1) url meth s =
           (Inl ValueError,
            case map_of (robot_parsers s) (base_url sch nl) of
              None \<Rightarrow> s\<lparr>robot_parsers := AList.update (base_url sch nl)
                                            (robots (robots_url (base_url sch nl))) (robot_parsers s),
                       robots_reads := robots_reads s @ [robots_url (base_url sch nl)]\<rparr>
            | Some r \<Rightarrow> s)"
    by (rule blocked_attempt)
  then show ?thesis
    by (simp add: fetch_url_def retry_if_exception_type_def)
qed

lemma blocked_fetch_each:
  assumes "\<forall>(url, envs) \<in> set reqs. \<exists>sch nl rp. up url = Inr (sch, nl)
              \<and> (case map_of (robot_parsers s) (base_url sch nl) of
                    None \<Rightarrow> robots (robots_url (base_url sch nl)) | Some r \<Rightarrow> r) = Some rp
              \<and> \<not> rp url"
  shows "\<exists>rps reads. fetch_each up robots cfg meth reqs s
           = (replicate (length reqs) (Inl ValueError),
              s\<lparr>robot_parsers := rps, robots_reads := robots_reads s @ reads\<rparr>)
         \<and> distinct reads
         \<and> set reads = robots_url `
             {b. (\<exists>url envs sch nl. (url, envs) \<in> set reqs \<and> up url = Inr (sch, nl)
                     \<and> b = base_url sch nl)
                 \<and> map_of (robot_parsers s) b = None}"
  using assms
proof (induction reqs arbitrary: s)
  case Nil
  have "s = s\<lparr>robot_parsers := robot_parsers s, robots_reads := robots_reads s @ []\<rparr>" by simp
  then have "fetch_each up robots cfg meth [] s
           = (replicate (length ([] :: (string \<times> (nat \<Rightarrow> attempt_env)) list)) (Inl ValueError),
              s\<lparr>robot_parsers := robot_parsers s, robots_reads := robots_reads s @ []\<rparr>)"
    by simp
  then show ?case by (intro exI [of _ "robot_parsers s"] exI [of _ "[]"]) simp
next
  case (Cons req reqs)
  obtain url envs where req: "req = (url, envs)" by (cases req)
  with Cons.prems obtain sch nl rp where parse: "up url = Inr (sch, nl)"
    and pol: "(case map_of (robot_parsers s) (base_url sch nl) of
                None \<Rightarrow> robots (robots_url (base_url sch nl)) | Some r \<Rightarrow> r) = Some rp"
    and no: "\<not> rp url"
    by auto
  define b0 where "b0 = base_url sch nl"
  define s1 where "s1 = (case map_of (robot_parsers s) b0 of
              None \<Rightarrow> s\<lparr>robot_parsers := AList.update b0 (robots (robots_url b0)) (robot_parsers s),
                       robots_reads := robots_reads s @ [robots_url b0]\<rparr>
            | Some r \<Rightarrow> s)"
  define bases :: "(string \<times> (nat \<Rightarrow> attempt_env)) list \<Rightarrow> string set" where "bases = (\<lambda>rs. {b. \<exists>url envs sch nl. (url, envs) \<in> set rs
                                      \<and> up url = Inr (sch, nl) \<and> b = base_url sch nl})"
  have one: "fetch_url up robots cfg envs url meth s = (Inl ValueError, s1)"
    unfolding s1_def b0_def using parse pol no by (rule blocked_fetch_url)
  have same: "(case map_of (robot_parsers s1) b of None \<Rightarrow> robots (robots_url b) | Some r \<Rightarrow> r)
             = (case map_of (robot_parsers s) b of None \<Rightarrow> robots (robots_url b) | Some r \<Rightarrow> r)"
    for b
    by (cases "map_of (robot_parsers s) b0") (simp_all add: s1_def update_conv')
  have blocked1: "\<forall>(url, envs) \<in> set reqs. \<exists>sch nl rp. up url = Inr (sch, nl)
              \<and> (case map_of (robot_parsers s1) (base_url sch nl) of
                    None \<Rightarrow> robots (robots_url (base_url sch nl)) | Some r \<Rightarrow> r) = Some rp
              \<and> \<not> rp url"
  proof (intro ballI, clarify)
    fix url' envs' assume mem: "(url', envs') \<in> set reqs"
    with Cons.prems obtain sch' nl' rp' where b: "up url' = Inr (sch', nl')"
      "(case map_of (robot_parsers s) (base_url sch' nl') of
          None \<Rightarrow> robots (robots_url (base_url sch' nl')) | Some r \<Rightarrow> r) = Some rp'" "\<not> rp' url'"
      by fastforce
    with same [of "base_url sch' nl'"]
    show "\<exists>sch nl rp. up url' = Inr (sch, nl)
              \<and> (case map_of (robot_parsers s1) (base_url sch nl) of
                    None \<Rightarrow> robots (robots_url (base_url sch nl)) | Some r \<Rightarrow> r) = Some rp
              \<and> \<not> rp url'"
      by (intro exI [of _ sch'] exI [of _ nl'] exI [of _ rp']) simp
  qed
  from Cons.IH [OF blocked1] obtain rps reads where
    rest: "fetch_each up robots cfg meth reqs s1
           = (replicate (length reqs) (Inl ValueError),
              s1\<lparr>robot_parsers := rps, robots_reads := robots_reads s1 @ reads\<rparr>)"
    and dist: "distinct reads"
    and reads: "set reads = robots_url ` {b. b \<in> bases reqs \<and> map_of (robot_parsers s1) b = None}"
    unfolding bases_def by auto
  have bases_cons: "bases (req # reqs) = insert b0 (bases reqs)"
    unfolding bases_def b0_def using req parse by auto
  from one rest req have run: "fetch_each up robots cfg meth (req # reqs) s
           = (replicate (length (req # reqs)) (Inl ValueError),
              s1\<lparr>robot_parsers := rps, robots_reads := robots_reads s1 @ reads\<rparr>)"
    by simp
  show ?case
  proof (cases "map_of (robot_parsers s) b0")
    case None
    then have s1: "s1 = s\<lparr>robot_parsers := AList.update b0 (robots (robots_url b0)) (robot_parsers s),
                          robots_reads := robots_reads s @ [robots_url b0]\<rparr>"
      by (simp add: s1_def)
    then have final: "s1\<lparr>robot_parsers := rps, robots_reads := robots_reads s1 @ reads\<rparr>
                 = s\<lparr>robot_parsers := rps, robots_reads := robots_reads s @ (robots_url b0 # reads)\<rparr>"
      by simp
    have cached: "map_of (robot_parsers s1) b = None \<longleftrightarrow> map_of (robot_parsers s) b = None \<and> b \<noteq> b0"
      for b by (auto simp: s1 update_conv')
    from reads cached have reads': "set reads = robots_url ` {b. b \<in> bases reqs
                                       \<and> map_of (robot_parsers s) b = None \<and> b \<noteq> b0}"
      by simp
    then have fresh: "robots_url b0 \<notin> set reads"
      by (auto simp: robots_url_inj)
    have "set (robots_url b0 # reads)
            = robots_url ` {b. b \<in> bases (req # reqs) \<and> map_of (robot_parsers s) b = None}"
      using reads' None bases_cons by auto
    with run final dist fresh show ?thesis
      unfolding bases_def
      by (intro exI [of _ rps] exI [of _ "robots_url b0 # reads"]) simp
  next
    case (Some r)
    then have s1: "s1 = s" by (simp add: s1_def)
    have "{b. b \<in> bases (req # reqs) \<and> map_of (robot_parsers s) b = None}
            = {b. b \<in> bases reqs \<and> map_of (robot_parsers s) b = None}"
      using Some bases_cons by auto
    with reads s1 have "set reads
            = robots_url ` {b. b \<in> bases (req # reqs) \<and> map_of (robot_parsers s) b = None}"
      by simp
    with run s1 dist show ?thesis
      unfolding bases_def
      by (intro exI [of _ rps] exI [of _ reads]) simp
  qed
qed

text \<open>
  C8, as stated, fails: a blocked call can issue an HTTP request. On a fresh scraper the
  policy lookup reads the robots.txt of the url's host before \<open>fetch_url\<close> raises.
\<close>

theorem policy_block_reads_robots_counterexample:
  "robots_reads (new_scraper default_settings 0) = []
   \<and> fst (fetch_url simple_urlparse disallow_all default_settings ok_envs
            ''https://a.example/1'' ''GET'' (new_scraper default_settings 0)) = Inl ValueError
   \<and> robots_reads (snd (fetch_url simple_urlparse disallow_all default_settings ok_envs
            ''https://a.example/1'' ''GET'' (new_scraper default_settings 0)))
       = [''https://a.example/robots.txt'']"
  by (simp add: fetch_simps urlparse_simps disallow_all_def)

text \<open>
  C8, amended. Let every url of a sequence of \<open>fetch_url\<close> calls be disallowed by its
  host's crawl policy (the parser cached for the host or, for a host not yet cached,
  the one that reading its robots.txt gives). Then every call raises the robots.txt
  \<open>ValueError\<close> at once, on the first attempt, and after all of them the scraper is
  what it was but for the cache of robot parsers and the robots.txt urls read: the
  limiter's recorded timestamps, the statistics, the clock reading, the requests sent
  through the session and the retry waits are unchanged. The urls read are the
  robots.txt urls of the hosts of the sequence that were not yet cached, each read once.
\<close>

theorem policy_block_consumes_nothing:
  assumes "\<forall>(url, envs) \<in> set reqs. \<exists>sch nl rp. up url = Inr (sch, nl)
              \<and> (case map_of (robot_parsers s) (base_url sch nl) of
                    None \<Rightarrow> robots (robots_url (base_url sch nl)) | Some r \<Rightarrow> r) = Some rp
              \<and> \<not> rp url"
  shows "\<exists>rps reads. fetch_each up robots cfg meth reqs s
           = (replicate (length reqs) (Inl ValueError),
              s\<lparr>robot_parsers := rps, robots_reads := robots_reads s @ reads\<rparr>)
         \<and> distinct reads
         \<and> set reads = robots_url `
             {b. (\<exists>url envs sch nl. (url, envs) \<in> set reqs \<and> up url = Inr (sch, nl)
                     \<and> b = base_url sch nl)
                 \<and> map_of (robot_parsers s) b = None}"
  using assms by (rule blocked_fetch_each)

theorem policy_block_consumes_nothing_witness:
  "fetch_each simple_urlparse disallow_all default_settings ''GET''
         [(''https://a.example/1'', ok_envs), (''https://b.example/2'', ok_envs),
          (''https://a.example/3'', ok_envs)] busy_scraper
     = ([Inl ValueError, Inl ValueError, Inl ValueError],
        busy_scraper\<lparr>robot_parsers :=
            [(''https://tim.blog'', None), (''https://a.example'', Some (\<lambda>url. False)),
             (''https://b.example'', Some (\<lambda>url. False))],
          robots_reads := [''https://tim.blog/robots.txt'', ''https://a.example/robots.txt'',
                           ''https://b.example/robots.txt'']\<rparr>)
   \<and> timestamps (rate_limiter busy_scraper) = [5]
   \<and> total_requests (stats busy_scraper) = 1
   \<and> requests_sent busy_scraper = [(''GET'', ''https://tim.blog/x'')]"
proof -
  let ?reqs = "[(''https://a.example/1'', ok_envs), (''https://b.example/2'', ok_envs),
          (''https://a.example/3'', ok_envs)]"
  have blocked: "\<forall>(url, envs) \<in> set ?reqs. \<exists>sch nl rp. simple_urlparse url = Inr (sch, nl)
              \<and> (case map_of (robot_parsers busy_scraper) (base_url sch nl) of
                    None \<Rightarrow> disallow_all (robots_url (base_url sch nl)) | Some r \<Rightarrow> r) = Some rp
              \<and> \<not> rp url"
    by (simp add: urlparse_simps busy_scraper_def disallow_all_def base_url_def)
  from policy_block_consumes_nothing [OF blocked, of default_settings "''GET''"]
  obtain rps where "\<exists>reads. fetch_each simple_urlparse disallow_all default_settings ''GET'' ?reqs busy_scraper
           = (replicate (length ?reqs) (Inl ValueError),
              busy_scraper\<lparr>robot_parsers := rps, robots_reads := robots_reads busy_scraper @ reads\<rparr>)
         \<and> distinct reads
         \<and> set reads = robots_url `
             {b. (\<exists>url envs sch nl. (url, envs) \<in> set ?reqs \<and> simple_urlparse url = Inr (sch, nl)
                     \<and> b = base_url sch nl)
                 \<and> map_of (robot_parsers busy_scraper) b = None}" ..
  then obtain reads where "fetch_each simple_urlparse disallow_all default_settings ''GET'' ?reqs busy_scraper
           = (replicate (length ?reqs) (Inl ValueError),
              busy_scraper\<lparr>robot_parsers := rps, robots_reads := robots_reads busy_scraper @ reads\<rparr>)
         \<and> distinct reads
         \<and> set reads = robots_url `
             {b. (\<exists>url envs sch nl. (url, envs) \<in> set ?reqs \<and> simple_urlparse url = Inr (sch, nl)
                     \<and> b = base_url sch nl)
                 \<and> map_of (robot_parsers busy_scraper) b = None}" ..
  then have run: "fetch_each simple_urlparse disallow_all default_settings ''GET'' ?reqs busy_scraper
           = (replicate (length ?reqs) (Inl ValueError),
              busy_scraper\<lparr>robot_parsers := rps, robots_reads := robots_reads busy_scraper @ reads\<rparr>)" ..
  have eval: "snd (fetch_each simple_urlparse disallow_all default_settings ''GET'' ?reqs busy_scraper)
      = busy_scraper\<lparr>robot_parsers :=
            [(''https://tim.blog'', None), (''https://a.example'', Some (\<lambda>url. False)),
             (''https://b.example'', Some (\<lambda>url. False))],
          robots_reads := [''https://tim.blog/robots.txt'', ''https://a.example/robots.txt'',
                           ''https://b.example/robots.txt'']\<rparr>"
    by (simp add: fetch_simps urlparse_simps disallow_all_def busy_scraper_def)
  from run have "fst (fetch_each simple_urlparse disallow_all default_settings ''GET'' ?reqs busy_scraper)
      = [Inl ValueError, Inl ValueError, Inl ValueError]"
    by (simp add: numeral_3_eq_3)
  with eval have "fetch_each simple_urlparse disallow_all default_settings ''GET'' ?reqs busy_scraper
     = ([Inl ValueError, Inl ValueError, Inl ValueError],
        busy_scraper\<lparr>robot_parsers :=
            [(''https://tim.blog'', None), (''https://a.example'', Some (\<lambda>url. False)),
             (''https://b.example'', Some (\<lambda>url. False))],
          robots_reads := [''https://tim.blog/robots.txt'', ''https://a.example/robots.txt'',
                           ''https://b.example/robots.txt'']\<rparr>)"
    by (simp add: prod_eq_iff)
  then show ?thesis by (simp add: busy_scraper_def)
qed

text \<open>
  C2 says that a status outside 429, 500, 502, 503 and 504 is fatal and propagates at
  once. The code does otherwise for a url that answers 404 to a GET, fetched by a fresh
  scraper under the default settings. The session's own retry set does not hold 404, and
  the response comes back after one request; \<open>raise_for_status\<close> raises, the decorator
  retries, and the call sends the request three times, with two waits of 4 seconds,
  before it ends in the decorator's \<open>RetryError\<close>, not in the
  \<open>requests.RequestException\<close> that the docstring of \<open>fetch_url\<close> names.
\<close>

theorem not_found_is_retried:
  "fetch_url simple_urlparse no_robots default_settings not_found_envs
          ''https://tim.blog/missing'' ''GET'' (new_scraper default_settings 0)
     = (Inl RetryError,
        \<lparr>session = create_session default_settings,
         rate_limiter = \<lparr>calls = 10, period = 60, timestamps = [0, 4, 8]\<rparr>,
         robot_parsers = [(''https://tim.blog'', None)],
         stats = \<lparr>total_requests = 3, successful_requests = 0, failed_requests = 3,
                  items_scraped = 0, items_filtered = 0\<rparr>,
         clock_reading = 8, robots_reads = [''https://tim.blog/robots.txt''],
         requests_sent = [(''GET'', ''https://tim.blog/missing''), (''GET'', ''https://tim.blog/missing''),
                          (''GET'', ''https://tim.blog/missing'')],
         backoffs = [4, 4]\<rparr>)
   \<and> \<not> is_retry (create_session default_settings) ''GET'' 404
   \<and> session_request (create_session default_settings) ''GET'' (\<lambda>i. Answer 404) = (Response 404, 1)"
  by (simp add: fetch_simps urlparse_simps not_found_envs_def no_robots_def)

lemma service_unavailable_session:
  "session_request (create_session default_settings) ''get'' (\<lambda>i. Answer 503)
     = (Raises RequestsRetryError, 4)"
  by (simp add: fetch_simps)

lemma service_unavailable_fetch:
  "fst (fetch_url simple_urlparse no_robots default_settings unavailable_envs
          ''https://tim.blog/x'' ''GET'' (new_scraper default_settings 0)) = Inl RetryError
   \<and> length (requests_sent (snd (fetch_url simple_urlparse no_robots default_settings
          unavailable_envs ''https://tim.blog/x'' ''GET'' (new_scraper default_settings 0)))) = 12
   \<and> backoffs (snd (fetch_url simple_urlparse no_robots default_settings
          unavailable_envs ''https://tim.blog/x'' ''GET'' (new_scraper default_settings 0))) = [4, 4]"
  by (simp add: fetch_simps urlparse_simps unavailable_envs_def no_robots_def)

end
